theory Spec2Isabelle
  imports Complex_Main "HOL-Library.Log_Nat"
begin

section \<open>Circuit breaker, two-state variant (src/provider/circuitBreaker.ts)\<close>

text \<open>
  The TypeScript circuit breaker of milestone M4 has the states \<^verbatim>\<open>'closed' | 'open'\<close>.
  JavaScript numbers that hold counters and millisecond timestamps are modelled as
  \<open>int\<close>; \<^verbatim>\<open>Date.now()\<close> is the explicit argument \<open>now\<close>; logging is dropped.
\<close>

datatype CircuitState = CLOSED | OPEN

record CircuitBreakerConfig =
  failureThreshold :: int
  resetTimeout :: int

record CircuitBreaker =
  cb_name :: string
  cb_state :: CircuitState
  consecutiveFails :: int
  lastFailure :: int
  cb_config :: CircuitBreakerConfig

definition newCircuitBreaker :: "string \<Rightarrow> CircuitBreaker" where
  "newCircuitBreaker n =
     \<lparr>cb_name = n, cb_state = CLOSED, consecutiveFails = 0, lastFailure = 0,
      cb_config = \<lparr>failureThreshold = 3, resetTimeout = 30000\<rparr>\<rparr>"

definition canExecute :: "int \<Rightarrow> CircuitBreaker \<Rightarrow> bool \<times> CircuitBreaker" where
  "canExecute now cb =
     (if cb_state cb = CLOSED then (True, cb)
      else
        let timeSinceFailure = now - lastFailure cb in
        if timeSinceFailure > resetTimeout (cb_config cb)
        then (True, cb\<lparr>cb_state := CLOSED, consecutiveFails := 0\<rparr>)
        else (False, cb))"

definition recordSuccess :: "CircuitBreaker \<Rightarrow> CircuitBreaker" where
  "recordSuccess cb = cb\<lparr>consecutiveFails := 0\<rparr>"

definition recordFailure :: "int \<Rightarrow> CircuitBreaker \<Rightarrow> CircuitBreaker" where
  "recordFailure now cb =
     (let cb1 = cb\<lparr>consecutiveFails := consecutiveFails cb + 1, lastFailure := now\<rparr> in
      if consecutiveFails cb1 \<ge> failureThreshold (cb_config cb1)
      then cb1\<lparr>cb_state := OPEN\<rparr>
      else cb1)"

definition isOpen :: "CircuitBreaker \<Rightarrow> bool" where
  "isOpen cb = (cb_state cb = OPEN)"


section \<open>Circuit breaker, three-state variant (internal/client/circuit_breaker.go)\<close>

text \<open>
  The Go circuit breaker has the states closed, open and half-open. Every method takes
  the breaker's mutex for its whole body, so calls on one breaker are serialised and a
  method is a function from the state before to the state after. \<^verbatim>\<open>time.Now()\<close> is the
  argument \<open>now\<close>, durations and times are \<open>int\<close> (nanoseconds), Go's \<^verbatim>\<open>int\<close> counters are
  \<open>int\<close> (their 64-bit overflow is out of reach of any run).
\<close>

datatype GoCircuitState = StateClosed | StateOpen | StateHalfOpen

record GoCircuitBreaker =
  go_name :: string
  threshold :: int
  timeout :: int
  go_state :: GoCircuitState
  failureCount :: int
  successCount :: int
  lastFailureTime :: int
  openedAt :: int

definition NewCircuitBreaker :: "string \<Rightarrow> int \<Rightarrow> int \<Rightarrow> GoCircuitBreaker" where
  "NewCircuitBreaker n thr tmo =
     \<lparr>go_name = n, threshold = thr, timeout = tmo, go_state = StateClosed,
      failureCount = 0, successCount = 0, lastFailureTime = 0, openedAt = 0\<rparr>"

definition IsOpen :: "int \<Rightarrow> GoCircuitBreaker \<Rightarrow> bool \<times> GoCircuitBreaker" where
  "IsOpen now cb =
     (if go_state cb = StateOpen then
        (if now - openedAt cb > timeout cb
         then (False, cb\<lparr>go_state := StateHalfOpen\<rparr>)
         else (True, cb))
      else (False, cb))"

definition RecordSuccess :: "GoCircuitBreaker \<Rightarrow> GoCircuitBreaker" where
  "RecordSuccess cb =
     (let cb1 = cb\<lparr>successCount := successCount cb + 1\<rparr> in
      if go_state cb1 = StateHalfOpen then
        cb1\<lparr>go_state := StateClosed, failureCount := 0\<rparr>
      else if go_state cb1 = StateClosed then
        (if failureCount cb1 > 0 then cb1\<lparr>failureCount := failureCount cb1 - 1\<rparr> else cb1)
      else cb1)"

definition RecordFailure :: "int \<Rightarrow> GoCircuitBreaker \<Rightarrow> GoCircuitBreaker" where
  "RecordFailure now cb =
     (let cb1 = cb\<lparr>failureCount := failureCount cb + 1, lastFailureTime := now\<rparr> in
      if go_state cb1 = StateHalfOpen then
        cb1\<lparr>go_state := StateOpen, openedAt := now\<rparr>
      else if go_state cb1 = StateClosed then
        (if failureCount cb1 \<ge> threshold cb1
         then cb1\<lparr>go_state := StateOpen, openedAt := now\<rparr>
         else cb1)
      else cb1)"


section \<open>Double-precision arithmetic\<close>

text \<open>
  TypeScript numbers and Go's \<^verbatim>\<open>float64\<close> are IEEE 754 doubles: every operation returns the
  double nearest to the exact result, a tie going to the even significand. \<open>binary64 x\<close>
  is that double, for a rational \<open>x\<close>: \<open>ilog2 \<bar>x\<bar>\<close> is the exponent \<open>e\<close> with
  \<open>2^e \<le> \<bar>x\<bar> < 2^(e+1)\<close>, the spacing of the doubles there is \<open>2^(e-52)\<close> (a significand
  of 53 bits), and \<open>roundEven\<close> rounds the quotient to the nearest integer, ties to even.
  The exponent is not bounded, so \<open>binary64\<close> is the machine's rounding where the exact
  result is 0 or has a magnitude from \<open>2^-1022\<close> up to the largest double: it has
  no infinity, no NaN and no subnormal numbers. A product below \<open>2^-1022\<close> (a random
  number that small, multiplied) is rounded more finely here than by the machine; the
  backoff functions add such a product to a number of the size of 0.2 or of a delay,
  and either rounding gives the same sum.
\<close>

definition ilog2 :: "rat \<Rightarrow> int" where
  "ilog2 x = (if x \<ge> 1 then bitlen \<lfloor>x\<rfloor> - 1 else - bitlen (\<lceil>1 / x\<rceil> - 1))"

definition roundEven :: "rat \<Rightarrow> int" where
  "roundEven q =
     (let f = \<lfloor>q\<rfloor>; d = q - of_int f
      in if d < 1 / 2 then f else if d > 1 / 2 then f + 1 else if even f then f else f + 1)"

definition binary64 :: "rat \<Rightarrow> rat" where
  "binary64 x =
     (if x = 0 then 0
      else let u = 2 powi (ilog2 \<bar>x\<bar> - 52)
           in sgn x * of_int (roundEven (\<bar>x\<bar> / u)) * u)"


section \<open>Retry backoff (ProviderClient.calculateBackoff, Orchestrator.calculateBackoff)\<close>

text \<open>
  \<^verbatim>\<open>Math.random()\<close> and \<^verbatim>\<open>rand.Float64()\<close> are the argument \<open>r\<close>, a double in \<open>[0, 1)\<close>.
  Each literal and each operation of the source is rounded by \<open>binary64\<close>, in the source's
  order; \<^verbatim>\<open>Math.pow(2, n)\<close> is exact for an integer \<open>n\<close>. The configured delays are
  integers (milliseconds, and nanoseconds of a \<^verbatim>\<open>time.Duration\<close>), converted to doubles
  where the source computes with them. The multiplication by 0.5 in the Go function is
  exact, so that a fused multiply-add, which Go allows a compiler to use, returns the
  same total.
\<close>

record RetryConfig =
  maxAttempts :: int
  baseDelay :: int
  maxDelay :: int

definition defaultRetryConfig :: RetryConfig where
  "defaultRetryConfig = \<lparr>maxAttempts = 3, baseDelay = 1000, maxDelay = 10000\<rparr>"

text \<open>The value of the local \<^verbatim>\<open>wait\<close> after \<^verbatim>\<open>Math.min\<close>, before the jitter is applied.\<close>

definition cappedWait :: "RetryConfig \<Rightarrow> int \<Rightarrow> rat" where
  "cappedWait rc attempt =
     min (binary64 (binary64 (of_int (baseDelay rc)) * 2 powi (attempt - 1)))
         (binary64 (of_int (maxDelay rc)))"

text \<open>The local \<^verbatim>\<open>jitter = 1.0 + (Math.random() * 0.4 - 0.2)\<close>.\<close>

definition jitter :: "rat \<Rightarrow> rat" where
  "jitter r = binary64 (1 + binary64 (binary64 (r * binary64 (4 / 10)) - binary64 (2 / 10)))"

definition calculateBackoff :: "RetryConfig \<Rightarrow> int \<Rightarrow> rat \<Rightarrow> int" where
  "calculateBackoff rc attempt r =
     (let wait = cappedWait rc attempt
      in \<lfloor>binary64 (wait * jitter r)\<rfloor>)"

record GoRetryConfig =
  MaxRetries :: int
  BaseBackoff :: int
  MaxBackoff :: int

text \<open>Go's conversion \<^verbatim>\<open>time.Duration(total)\<close> of a float truncates toward zero.\<close>

definition toDuration :: "rat \<Rightarrow> int" where
  "toDuration x = (if x \<ge> 0 then \<lfloor>x\<rfloor> else \<lceil>x\<rceil>)"

text \<open>
  \<^verbatim>\<open>backoff * rand.Float64() * 0.5\<close> is two multiplications, from the left; the local
  \<^verbatim>\<open>jitter\<close> of the Go function is \<open>jitter'\<close> here.
\<close>

definition Orchestrator_calculateBackoff :: "GoRetryConfig \<Rightarrow> int \<Rightarrow> rat \<Rightarrow> int" where
  "Orchestrator_calculateBackoff rc attemptNumber r =
     (let exp = 2 powi (attemptNumber - 1);
          backoff = binary64 (binary64 (of_int (BaseBackoff rc)) * exp);
          jitter' = binary64 (binary64 (backoff * r) * binary64 (5 / 10));
          total = binary64 (backoff + jitter');
          total' = (if total > binary64 (of_int (MaxBackoff rc))
                    then binary64 (of_int (MaxBackoff rc)) else total)
      in toDuration total')"


section \<open>Provider errors and one request (src/provider/errors.ts, ProviderClient.doRequest)\<close>

datatype ErrorType = network | timeout_error | server_error | rate_limit | client_error | decode

text \<open>The message of an error takes no part in any decision and is left out.\<close>

record ProviderError =
  etype :: ErrorType
  statusCode :: "int option"
  retryable :: bool
  failover :: bool

definition networkError :: ProviderError where
  "networkError = \<lparr>etype = network, statusCode = None, retryable = True, failover = False\<rparr>"

definition timeoutError :: ProviderError where
  "timeoutError = \<lparr>etype = timeout_error, statusCode = None, retryable = True, failover = False\<rparr>"

definition serverError :: "int \<Rightarrow> ProviderError" where
  "serverError sc = \<lparr>etype = server_error, statusCode = Some sc, retryable = True, failover = False\<rparr>"

definition rateLimitError :: ProviderError where
  "rateLimitError = \<lparr>etype = rate_limit, statusCode = Some 429, retryable = False, failover = True\<rparr>"

definition clientError :: "int \<Rightarrow> ProviderError" where
  "clientError sc = \<lparr>etype = client_error, statusCode = Some sc, retryable = False, failover = False\<rparr>"

text \<open>
  What \<^verbatim>\<open>fetch\<close> does for one request: an HTTP response with its status and, when the
  body is JSON, the text at \<^verbatim>\<open>choices[0].message.content\<close> (\<open>None\<close> when
  \<^verbatim>\<open>response.json()\<close> rejects); an abort by the request timer; a \<^verbatim>\<open>TypeError\<close> of
  \<^verbatim>\<open>fetch\<close>; any other exception.
\<close>

datatype RawResponse =
    HttpResponse int "string option"
  | AbortError
  | FetchTypeError
  | OtherException

datatype Thrown = PE ProviderError | PlainError string

definition doRequest :: "RawResponse \<Rightarrow> Thrown + string" where
  "doRequest raw =
     (case raw of
        HttpResponse status body \<Rightarrow>
          if status \<ge> 500 then Inl (PE (serverError status))
          else if status = 429 then Inl (PE rateLimitError)
          else if status \<ge> 400 then Inl (PE (clientError status))
          else (case body of
                  Some c \<Rightarrow> Inr c
                | None \<Rightarrow> Inl (PlainError ''SyntaxError''))
      | AbortError \<Rightarrow> Inl (PE timeoutError)
      | FetchTypeError \<Rightarrow> Inl (PE networkError)
      | OtherException \<Rightarrow> Inl (PlainError ''Error''))"


section \<open>Router (src/provider/router.ts)\<close>

text \<open>
  The router owns the array of providers; a \<^verbatim>\<open>Provider\<close> reference is the index of the
  provider in that array, and a method returns the index it selected together with the
  array after the \<^verbatim>\<open>canExecute\<close> calls it made.
\<close>

record Provider =
  name :: string
  url :: string
  circuit :: CircuitBreaker

definition newRouter :: "string \<Rightarrow> string \<Rightarrow> Provider list" where
  "newRouter openaiUrl anthropicUrl =
     [\<lparr>name = ''openai'', url = openaiUrl, circuit = newCircuitBreaker ''openai''\<rparr>,
      \<lparr>name = ''anthropic'', url = anthropicUrl, circuit = newCircuitBreaker ''anthropic''\<rparr>]"

text \<open>The loop moves on past provider \<open>p\<close>: indices found later are one further on.\<close>

definition past :: "Provider \<Rightarrow> nat option \<times> Provider list \<Rightarrow> nat option \<times> Provider list" where
  "past p r = (map_option Suc (fst r), p # snd r)"

fun getHealthyProvider :: "int \<Rightarrow> Provider list \<Rightarrow> nat option \<times> Provider list" where
  "getHealthyProvider now [] = (None, [])"
| "getHealthyProvider now (p # ps) =
     (case canExecute now (circuit p) of
        (ok, c) \<Rightarrow>
          if ok then (Some 0, p\<lparr>circuit := c\<rparr> # ps)
          else past (p\<lparr>circuit := c\<rparr>) (getHealthyProvider now ps))"

text \<open>First loop of getNextProvider: the providers after the current one.\<close>

fun afterCurrent :: "int \<Rightarrow> string \<Rightarrow> bool \<Rightarrow> Provider list \<Rightarrow> nat option \<times> Provider list" where
  "afterCurrent now currentName foundCurrent [] = (None, [])"
| "afterCurrent now currentName foundCurrent (p # ps) =
     (if name p = currentName then past p (afterCurrent now currentName True ps)
      else if foundCurrent then
        (case canExecute now (circuit p) of
           (ok, c) \<Rightarrow>
             if ok then (Some 0, p\<lparr>circuit := c\<rparr> # ps)
             else past (p\<lparr>circuit := c\<rparr>) (afterCurrent now currentName foundCurrent ps))
      else past p (afterCurrent now currentName foundCurrent ps))"

text \<open>Second loop ("wrap around"): the providers before the current one.\<close>

fun beforeCurrent :: "int \<Rightarrow> string \<Rightarrow> Provider list \<Rightarrow> nat option \<times> Provider list" where
  "beforeCurrent now currentName [] = (None, [])"
| "beforeCurrent now currentName (p # ps) =
     (if name p = currentName then (None, p # ps)
      else
        (case canExecute now (circuit p) of
           (ok, c) \<Rightarrow>
             if ok then (Some 0, p\<lparr>circuit := c\<rparr> # ps)
             else past (p\<lparr>circuit := c\<rparr>) (beforeCurrent now currentName ps)))"

definition getNextProvider :: "int \<Rightarrow> string \<Rightarrow> Provider list \<Rightarrow> nat option \<times> Provider list" where
  "getNextProvider now currentName ps =
     (case afterCurrent now currentName False ps of
        (Some i, ps') \<Rightarrow> (Some i, ps')
      | (None, ps') \<Rightarrow> beforeCurrent now currentName ps')"


section \<open>Provider client with retry and failover (src/provider/client.ts, milestone M4)\<close>

text \<open>
  The client runs against a scripted world. Each \<^verbatim>\<open>doRequest\<close> takes the next reply of
  the script: how long the request took, what \<^verbatim>\<open>fetch\<close> did, and the value
  \<^verbatim>\<open>Math.random()\<close> returns if a backoff follows this attempt. The clock read by
  \<^verbatim>\<open>Date.now()\<close> advances by the latency of a request and by the length of a sleep.
  A run that needs a reply when the script has none left ends as \<open>ScriptEnd\<close>.

  The world keeps a log of what the client did. \<open>EvSelected\<close>, \<open>EvAttempt\<close>, \<open>EvBackoff\<close>
  and \<open>EvFailover\<close> stand for the log entries "selected", "attempt", "backoff" and
  "failover" of the source. An \<open>EvAttempt\<close> also records two facts that the source does
  not log: whether the provider's circuit was open when the request was issued, and
  how the request ended.
\<close>

record Reply =
  latency :: int
  raw :: RawResponse
  rnd :: rat

datatype Outcome = Succeeded | Failed Thrown

datatype Event =
    EvSelected string
  | EvAttempt string int bool Outcome
  | EvBackoff int
  | EvFailover string "string option"

record World =
  clock :: int
  providers :: "Provider list"
  events :: "Event list"

record ProviderResponse =
  r_content :: string
  r_provider :: string
  r_attempts :: int

datatype CallResult = Returned ProviderResponse | Threw Thrown | ScriptEnd

definition isFailover :: "Thrown \<Rightarrow> bool" where
  "isFailover e = (case e of PE pe \<Rightarrow> failover pe | PlainError _ \<Rightarrow> False)"

definition notRetryable :: "Thrown \<Rightarrow> bool" where
  "notRetryable e = (case e of PE pe \<Rightarrow> \<not> retryable pe | PlainError _ \<Rightarrow> False)"

definition setCircuit :: "nat \<Rightarrow> CircuitBreaker \<Rightarrow> Provider list \<Rightarrow> Provider list" where
  "setCircuit i c ps = ps[i := (ps ! i)\<lparr>circuit := c\<rparr>]"

definition logEvent :: "Event \<Rightarrow> World \<Rightarrow> World" where
  "logEvent e w = w\<lparr>events := events w @ [e]\<rparr>"

definition sleep :: "int \<Rightarrow> World \<Rightarrow> World" where
  "sleep ms w = w\<lparr>clock := clock w + ms\<rparr>"

text \<open>
  The \<^verbatim>\<open>for\<close> loop of callWithRetry from attempt number \<open>attempt\<close> on, against the
  provider at index \<open>i\<close>.
\<close>

fun callWithRetryLoop ::
  "RetryConfig \<Rightarrow> nat \<Rightarrow> int \<Rightarrow> Reply list \<Rightarrow> World \<Rightarrow> CallResult \<times> Reply list \<times> World" where
  "callWithRetryLoop rc i attempt [] w =
     (if attempt \<le> maxAttempts rc then (ScriptEnd, [], w)
      else (Threw (PlainError ''Exhausted attempts''), [], w))"
| "callWithRetryLoop rc i attempt (reply # script) w =
     (if attempt \<le> maxAttempts rc then
        (let p = providers w ! i;
             out = doRequest (raw reply);
             w1 = sleep (latency reply) w
         in case out of
              Inr c \<Rightarrow>
                (Returned \<lparr>r_content = c, r_provider = name p, r_attempts = attempt\<rparr>,
                 script,
                 logEvent (EvAttempt (name p) attempt (isOpen (circuit p)) Succeeded)
                   (w1\<lparr>providers := setCircuit i (recordSuccess (circuit p)) (providers w1)\<rparr>))
            | Inl e \<Rightarrow>
                (let w2 = logEvent (EvAttempt (name p) attempt (isOpen (circuit p)) (Failed e))
                            (w1\<lparr>providers :=
                                  setCircuit i (recordFailure (clock w1) (circuit p)) (providers w1)\<rparr>)
                 in if isFailover e then (Threw e, script, w2)
                    else if notRetryable e then (Threw e, script, w2)
                    else if attempt < maxAttempts rc then
                      (let wait = calculateBackoff rc attempt (rnd reply)
                       in callWithRetryLoop rc i (attempt + 1) script
                            (sleep wait (logEvent (EvBackoff wait) w2)))
                    else callWithRetryLoop rc i (attempt + 1) script w2))
      else (Threw (PlainError ''Exhausted attempts''), reply # script, w))"

definition callWithRetry ::
  "RetryConfig \<Rightarrow> nat \<Rightarrow> Reply list \<Rightarrow> World \<Rightarrow> CallResult \<times> Reply list \<times> World" where
  "callWithRetry rc i script w = callWithRetryLoop rc i 1 script w"

lemma callWithRetryLoop_failover_consumes:
  "callWithRetryLoop rc i attempt script w = (Threw e, script', w') \<Longrightarrow> isFailover e
   \<Longrightarrow> length script' < length script"
proof (induction script arbitrary: attempt w)
  case Nil
  then show ?case by (auto simp: isFailover_def split: if_splits)
next
  case (Cons reply script)
  show ?case
  proof (cases "attempt \<le> maxAttempts rc")
    case False
    with Cons.prems show ?thesis by (auto simp: isFailover_def)
  next
    case True
    show ?thesis
    proof (cases "doRequest (raw reply)")
      case (Inr c)
      with True Cons.prems show ?thesis by (simp add: Let_def)
    next
      case (Inl err)
      with True Cons.prems Cons.IH show ?thesis
        by (fastforce simp: Let_def split: if_splits)
    qed
  qed
qed

text \<open>
  The \<^verbatim>\<open>while (provider)\<close> loop of call, entered with the provider at index \<open>i\<close> and the
  running value of \<^verbatim>\<open>totalAttempts\<close>.
\<close>

function callLoop ::
  "RetryConfig \<Rightarrow> nat \<Rightarrow> int \<Rightarrow> Reply list \<Rightarrow> World \<Rightarrow> CallResult \<times> Reply list \<times> World" where
  "callLoop rc i totalAttempts script w =
     (case callWithRetry rc i script (logEvent (EvSelected (name (providers w ! i))) w) of
        (Returned result, script', w') \<Rightarrow>
          (Returned (result\<lparr>r_attempts := totalAttempts + r_attempts result\<rparr>), script', w')
      | (ScriptEnd, script', w') \<Rightarrow> (ScriptEnd, script', w')
      | (Threw e, script', w') \<Rightarrow>
          (if isFailover e then
             (case getNextProvider (clock w') (name (providers w' ! i)) (providers w') of
                (None, ps') \<Rightarrow>
                  (Threw (PlainError ''All attempts failed''), script',
                   logEvent (EvFailover (name (providers w' ! i)) None) (w'\<lparr>providers := ps'\<rparr>))
              | (Some j, ps') \<Rightarrow>
                  callLoop rc j (totalAttempts + maxAttempts rc) script'
                    (logEvent (EvFailover (name (providers w' ! i)) (Some (name (ps' ! j))))
                       (w'\<lparr>providers := ps'\<rparr>)))
           else (Threw (PlainError ''All attempts failed''), script', w')))"
  by pat_completeness auto
termination
  by (relation "measure (\<lambda>(rc, i, t, script, w). length script)")
     (auto simp: callWithRetry_def dest: callWithRetryLoop_failover_consumes [OF sym])

declare callLoop.simps [simp del]

definition call :: "RetryConfig \<Rightarrow> Reply list \<Rightarrow> World \<Rightarrow> CallResult \<times> Reply list \<times> World" where
  "call rc script w =
     (case getHealthyProvider (clock w) (providers w) of
        (None, ps') \<Rightarrow>
          (Threw (PlainError ''No healthy providers available''), script, w\<lparr>providers := ps'\<rparr>)
      | (Some i, ps') \<Rightarrow> callLoop rc i 0 script (w\<lparr>providers := ps'\<rparr>))"


section \<open>Reading the client's log\<close>

fun isAttempt :: "Event \<Rightarrow> bool" where
  "isAttempt (EvAttempt p k opn out) = True"
| "isAttempt _ = False"

text \<open>The requests sent and the waits made, without the bookkeeping entries.\<close>

fun isAction :: "Event \<Rightarrow> bool" where
  "isAction (EvAttempt p k opn out) = True"
| "isAction (EvBackoff ms) = True"
| "isAction _ = False"

text \<open>
  What may follow an attempt in the log: after an attempt that failed with a failover
  error, the next action is attempt number 1 against a provider of another name whose
  circuit is not open.
\<close>

fun afterRateLimit :: "Event \<Rightarrow> Event \<Rightarrow> bool" where
  "afterRateLimit (EvAttempt p k opn (Failed e)) (EvAttempt q k' opn' out) =
     (isFailover e \<longrightarrow> q \<noteq> p \<and> k' = 1 \<and> \<not> opn')"
| "afterRateLimit (EvAttempt p k opn (Failed e)) y = (\<not> isFailover e)"
| "afterRateLimit x y = True"

definition newEvents :: "World \<Rightarrow> World \<Rightarrow> Event list" where
  "newEvents w w' = drop (length (events w)) (events w')"

text \<open>Example worlds and replies.\<close>

definition freshWorld :: World where
  "freshWorld =
     \<lparr>clock = 0, providers = newRouter ''http://openai'' ''http://anthropic'', events = []\<rparr>"

definition replyOf :: "RawResponse \<Rightarrow> Reply" where
  "replyOf r = \<lparr>latency = 10, raw = r, rnd = 1 / 2\<rparr>"


definition openaiDown :: World where
  "openaiDown =
     freshWorld\<lparr>clock := 100,
                providers :=
                  setCircuit 0 ((newCircuitBreaker ''openai'')\<lparr>cb_state := OPEN, consecutiveFails := 3\<rparr>)
                    (providers freshWorld)\<rparr>"


text \<open>The world after a first attempt on anthropic was answered 429 after 10 ms.\<close>

definition afterAnthropic429 :: World where
  "afterAnthropic429 =
     \<lparr>clock = 10,
      providers =
        setCircuit 1 ((newCircuitBreaker ''anthropic'')\<lparr>consecutiveFails := 1, lastFailure := 10\<rparr>)
          (providers freshWorld),
      events = [EvSelected ''anthropic'',
                EvAttempt ''anthropic'' 1 False (Failed (PE rateLimitError))]\<rparr>"


section \<open>Provider router (internal/router/router.go)\<close>

record ProviderConfig =
  Name :: string
  BaseURL :: string
  APIKey :: string
  Models :: "string list"
  Priority :: int

text \<open>Of a request, the router and the orchestrator read the model and the preferred provider.\<close>

record Request =
  Model :: string
  PreferredProvider :: string

record ProviderRouter =
  router_providers :: "ProviderConfig list"
  modelToProvider :: "string \<Rightarrow> string list"

text \<open>A Go map from a model to a slice of names; a missing key reads as the empty slice.\<close>

definition NewProviderRouter :: "ProviderConfig list \<Rightarrow> ProviderRouter" where
  "NewProviderRouter ps =
     \<lparr>router_providers = ps,
      modelToProvider =
        fold (\<lambda>p m. fold (\<lambda>model m'. m'(model := m' model @ [Name p])) (Models p) m)
          ps (\<lambda>_. [])\<rparr>"

text \<open>The errors of a context that is done: \<^verbatim>\<open>context.Canceled\<close> and \<^verbatim>\<open>context.DeadlineExceeded\<close>.\<close>

datatype CtxError = Canceled | DeadlineExceeded

datatype GoError =
    RetryableError string
  | NonRetryableError string
  | ProviderTimeoutError string
  | ProviderRateLimitError string
  | CircuitBreakerOpenError string
  | MaxRetriesExceededError int "GoError option"
  | ContextError CtxError
  | OtherError string

definition SelectProvider :: "ProviderRouter \<Rightarrow> Request \<Rightarrow> int \<Rightarrow> string \<Rightarrow> GoError + string" where
  "SelectProvider r req attemptNumber previousProvider =
     (let eligible = modelToProvider r (Model req) in
      if length eligible = 0 then Inl (OtherError ''no provider supports model'')
      else if attemptNumber = 1 then
        (if PreferredProvider req \<noteq> [] \<and> PreferredProvider req \<in> set eligible
         then Inr (PreferredProvider req)
         else Inr (hd eligible))
      else
        (case find (\<lambda>p. p \<noteq> previousProvider) eligible of
           Some p \<Rightarrow> Inr p
         | None \<Rightarrow> Inr (hd eligible)))"

definition GetProviderConfig :: "ProviderRouter \<Rightarrow> string \<Rightarrow> GoError + ProviderConfig" where
  "GetProviderConfig r n =
     (case find (\<lambda>p. Name p = n) (router_providers r) of
        Some p \<Rightarrow> Inr p
      | None \<Rightarrow> Inl (OtherError ''provider not found''))"


section \<open>HTTP client with circuit breakers (internal/client/client.go)\<close>

text \<open>
  The request's context: the time from which \<^verbatim>\<open>ctx.Done()\<close> is closed, if there is
  one, and the error that \<^verbatim>\<open>ctx.Err()\<close> returns from then on; before that time
  \<^verbatim>\<open>ctx.Err()\<close> is nil.
\<close>

record Context =
  doneAt :: "int option"
  doneErr :: CtxError

definition ctx_Err :: "Context \<Rightarrow> int \<Rightarrow> CtxError option" where
  "ctx_Err ctx now =
     (case doneAt ctx of
        Some t \<Rightarrow> if t \<le> now then Some (doneErr ctx) else None
      | None \<Rightarrow> None)"

text \<open>
  What the HTTP round trip of one SendRequest does: \<^verbatim>\<open>client.Do\<close> fails, reading the
  body fails, or a response arrives with its status and a body that parses as JSON or
  does not. A reply also says how long the round trip took and what the adapter's
  TransformResponse does with the parsed body: it returns a response, returns an error
  (no choices), or panics on a failed type assertion. Marshalling the request body and
  building the request do not fail. The script decides what a round trip does, also
  when the context is done.
\<close>

datatype HttpReply = DoError | ReadError | Response int bool

datatype Transformed = TransformOk | TransformError | TransformPanic

record GoReply =
  go_latency :: int
  http :: HttpReply
  transform :: Transformed

record HTTPClient =
  circuitBreakers :: "string \<rightharpoonup> GoCircuitBreaker"
  cfg_threshold :: int
  cfg_timeout :: int
  go_clock :: int

text \<open>
  How a call ends: with a value, with an error, with a panic that unwinds the caller, or,
  in the model only, for lack of a scripted reply.
\<close>

datatype 'a GoResult = Ok 'a | Err GoError | Panic | NoReply

definition getCircuitBreaker :: "HTTPClient \<Rightarrow> string \<Rightarrow> GoCircuitBreaker \<times> HTTPClient" where
  "getCircuitBreaker c p =
     (case circuitBreakers c p of
        Some cb \<Rightarrow> (cb, c)
      | None \<Rightarrow>
          (let cb = NewCircuitBreaker p (cfg_threshold c) (cfg_timeout c)
           in (cb, c\<lparr>circuitBreakers := (circuitBreakers c)(p \<mapsto> cb)\<rparr>)))"

definition failed :: "string \<Rightarrow> HTTPClient \<Rightarrow> GoCircuitBreaker \<Rightarrow> HTTPClient" where
  "failed p c cb = c\<lparr>circuitBreakers := (circuitBreakers c)(p \<mapsto> RecordFailure (go_clock c) cb)\<rparr>"

text \<open>The part of SendRequest after the circuit breaker has let the request through.\<close>

definition roundTrip ::
  "Context \<Rightarrow> string \<Rightarrow> GoCircuitBreaker \<Rightarrow> GoReply \<Rightarrow> HTTPClient
     \<Rightarrow> unit GoResult \<times> HTTPClient" where
  "roundTrip ctx p cb reply c2 =
     (let c3 = c2\<lparr>go_clock := go_clock c2 + go_latency reply\<rparr> in
      case http reply of
        DoError \<Rightarrow>
          (Err (if ctx_Err ctx (go_clock c3) = Some DeadlineExceeded then ProviderTimeoutError p
                else RetryableError ''request failed''),
           failed p c3 cb)
      | ReadError \<Rightarrow> (Err (RetryableError ''failed to read response''), failed p c3 cb)
      | Response status json \<Rightarrow>
          if status \<noteq> 200 then
            (Err (if status = 429 then ProviderRateLimitError p
                  else if status \<ge> 500 then RetryableError ''server error''
                  else if status = 401 then NonRetryableError ''authentication failed''
                  else NonRetryableError ''request failed with status''),
             failed p c3 cb)
          else if \<not> json then (Err (RetryableError ''failed to parse response''), failed p c3 cb)
          else (Ok (), c3\<lparr>circuitBreakers := (circuitBreakers c3)(p \<mapsto> RecordSuccess cb)\<rparr>))"

definition SendRequest ::
  "Context \<Rightarrow> string \<Rightarrow> GoReply list \<Rightarrow> HTTPClient
     \<Rightarrow> unit GoResult \<times> GoReply list \<times> HTTPClient" where
  "SendRequest ctx p script c0 =
     (case getCircuitBreaker c0 p of
        (cb0, c1) \<Rightarrow>
          (case IsOpen (go_clock c1) cb0 of
             (opn, cb) \<Rightarrow>
               (let c2 = c1\<lparr>circuitBreakers := (circuitBreakers c1)(p \<mapsto> cb)\<rparr> in
                if opn then (Err (CircuitBreakerOpenError p), script, c2)
                else
                  (case script of
                     [] \<Rightarrow> (NoReply, [], c2)
                   | reply # rest \<Rightarrow>
                       (case roundTrip ctx p cb reply c2 of (res, c3) \<Rightarrow> (res, rest, c3))))))"


section \<open>Request orchestrator (internal/orchestrator/orchestrator.go)\<close>

record Attempt =
  AttemptNumber :: int
  attempt_Provider :: string
  Status :: string
  ErrorType :: string

record Response =
  resp_Provider :: string
  Attempts :: int

text \<open>The name of an error's dynamic type, as \<^verbatim>\<open>fmt.Sprintf("%T", err)\<close> prints it.\<close>

definition typeName :: "GoError \<Rightarrow> string" where
  "typeName err =
     (case err of
        RetryableError _ \<Rightarrow> ''*errors.RetryableError''
      | NonRetryableError _ \<Rightarrow> ''*errors.NonRetryableError''
      | ProviderTimeoutError _ \<Rightarrow> ''*errors.ProviderTimeoutError''
      | ProviderRateLimitError _ \<Rightarrow> ''*errors.ProviderRateLimitError''
      | CircuitBreakerOpenError _ \<Rightarrow> ''*errors.CircuitBreakerOpenError''
      | MaxRetriesExceededError _ _ \<Rightarrow> ''*errors.MaxRetriesExceededError''
      | ContextError e \<Rightarrow>
          (case e of
             Canceled \<Rightarrow> ''*errors.errorString''
           | DeadlineExceeded \<Rightarrow> ''context.deadlineExceededError'')
      | OtherError _ \<Rightarrow> ''*errors.errorString'')"

text \<open>
  The orchestrator has adapters for the providers named "openai" and "anthropic".
  TransformRequest of an adapter does not fail. When TransformResponse panics,
  executeAttempt does not return: the result is \<open>Panic\<close>, and the Attempt that comes with
  it is not used.
\<close>

definition adapters :: "string set" where
  "adapters = {''openai'', ''anthropic''}"

definition executeAttempt ::
  "Context \<Rightarrow> ProviderRouter \<Rightarrow> int \<Rightarrow> string \<Rightarrow> GoReply list \<Rightarrow> HTTPClient
     \<Rightarrow> Attempt \<times> Response GoResult \<times> GoReply list \<times> HTTPClient" where
  "executeAttempt ctx r attemptNumber p script c =
     (let attempt = \<lparr>AttemptNumber = attemptNumber, attempt_Provider = p,
                      Status = ''in_progress'', ErrorType = ''''\<rparr> in
      case GetProviderConfig r p of
        Inl err \<Rightarrow>
          (attempt\<lparr>Status := ''failed'', ErrorType := ''config_error''\<rparr>, Err err, script, c)
      | Inr providerConfig \<Rightarrow>
          if p \<notin> adapters then
            (attempt\<lparr>Status := ''failed'', ErrorType := ''adapter_error''\<rparr>,
             Err (OtherError ''no adapter for provider''), script, c)
          else
            (case SendRequest ctx p script c of
               (NoReply, script', c') \<Rightarrow> (attempt, NoReply, script', c')
             | (Panic, script', c') \<Rightarrow> (attempt, Panic, script', c')
             | (Err err, script', c') \<Rightarrow>
                 (attempt\<lparr>Status := ''failed'', ErrorType := typeName err\<rparr>, Err err, script', c')
             | (Ok respData, script', c') \<Rightarrow>
                 (case script of
                    [] \<Rightarrow> (attempt, NoReply, script', c')
                  | reply # _ \<Rightarrow>
                      (case transform reply of
                         TransformOk \<Rightarrow>
                           (attempt\<lparr>Status := ''success''\<rparr>,
                            Ok \<lparr>resp_Provider = '''', Attempts = 0\<rparr>, script', c')
                       | TransformError \<Rightarrow>
                           (attempt\<lparr>Status := ''failed'',
                                    ErrorType := ''response_transform_error''\<rparr>,
                            Err (OtherError ''invalid response format''), script', c')
                       | TransformPanic \<Rightarrow> (attempt, Panic, script', c')))))"

definition isRetryable :: "GoError \<Rightarrow> bool" where
  "isRetryable err =
     (case err of
        RetryableError _ \<Rightarrow> True
      | ProviderTimeoutError _ \<Rightarrow> True
      | ProviderRateLimitError _ \<Rightarrow> True
      | _ \<Rightarrow> False)"

text \<open>
  The \<^verbatim>\<open>for\<close> loop of ExecuteRequest from attempt number \<open>attemptNumber\<close> on. The
  random number of the backoff after attempt \<open>n\<close> is \<open>rand n\<close>. A panic of the attempt
  unwinds ExecuteRequest before the attempt is appended to the history.

  The wait before a retry is a \<^verbatim>\<open>select\<close> between the timer \<^verbatim>\<open>time.After(waitTime)\<close>,
  which fires at once for a duration that is not positive, and \<^verbatim>\<open>ctx.Done()\<close>. The
  case that is ready first is taken; when both are ready at the same instant Go takes
  either, and \<open>timerFirst n\<close> says whether the select after attempt \<open>n\<close> takes the timer.
  The local \<open>done\<close> is the instant at which the select takes \<^verbatim>\<open>ctx.Done()\<close>, if it does.
\<close>

function ExecuteLoop ::
  "Context \<Rightarrow> GoRetryConfig \<Rightarrow> ProviderRouter \<Rightarrow> (int \<Rightarrow> rat) \<Rightarrow> (int \<Rightarrow> bool) \<Rightarrow> Request
     \<Rightarrow> int \<Rightarrow> string \<Rightarrow> GoError option \<Rightarrow> Attempt list \<Rightarrow> GoReply list \<Rightarrow> HTTPClient
     \<Rightarrow> Response GoResult \<times> Attempt list \<times> GoReply list \<times> HTTPClient" where
  "ExecuteLoop ctx rc r rand timerFirst req attemptNumber lastProvider lastError attempts script c =
     (if attemptNumber \<le> MaxRetries rc then
        (case SelectProvider r req attemptNumber lastProvider of
           Inl err \<Rightarrow> (Err err, attempts, script, c)
         | Inr p \<Rightarrow>
             (case executeAttempt ctx r attemptNumber p script c of
                (attempt, res, script', c') \<Rightarrow>
                  (let attempts' = attempts @ [attempt] in
                   case res of
                     NoReply \<Rightarrow> (NoReply, attempts', script', c')
                   | Panic \<Rightarrow> (Panic, attempts, script', c')
                   | Ok response \<Rightarrow>
                       (Ok (response\<lparr>Attempts := attemptNumber, resp_Provider := p\<rparr>),
                        attempts', script', c')
                   | Err err \<Rightarrow>
                       if \<not> isRetryable err then (Err err, attempts', script', c')
                       else if attemptNumber \<ge> MaxRetries rc then
                         (Err (MaxRetriesExceededError (int (length attempts')) (Some err)),
                          attempts', script', c')
                       else
                         (let waitTime = Orchestrator_calculateBackoff rc attemptNumber
                                           (rand attemptNumber);
                              now = go_clock c';
                              fire = now + max 0 waitTime;
                              done = (case doneAt ctx of
                                        None \<Rightarrow> None
                                      | Some t \<Rightarrow>
                                          if fire < t then None
                                          else if max now t < fire then Some (max now t)
                                          else if timerFirst attemptNumber then None
                                          else Some (max now t))
                          in case done of
                               None \<Rightarrow>
                                 ExecuteLoop ctx rc r rand timerFirst req (attemptNumber + 1) p
                                   (Some err) attempts' script' (c'\<lparr>go_clock := fire\<rparr>)
                             | Some t \<Rightarrow>
                                 (Err (ContextError (doneErr ctx)), attempts', script',
                                  c'\<lparr>go_clock := t\<rparr>)))))
      else (Err (MaxRetriesExceededError (int (length attempts)) lastError),
            attempts, script, c))"
  by pat_completeness auto
termination
  by (relation "measure (\<lambda>(ctx, rc, r, rand, tf, req, n, lp, le, as, s, c).
                           nat (MaxRetries rc + 1 - n))")
     auto

declare ExecuteLoop.simps [simp del]

definition ExecuteRequest ::
  "Context \<Rightarrow> GoRetryConfig \<Rightarrow> ProviderRouter \<Rightarrow> (int \<Rightarrow> rat) \<Rightarrow> (int \<Rightarrow> bool) \<Rightarrow> Request
     \<Rightarrow> GoReply list \<Rightarrow> HTTPClient
     \<Rightarrow> Response GoResult \<times> Attempt list \<times> GoReply list \<times> HTTPClient" where
  "ExecuteRequest ctx rc r rand timerFirst req script c =
     ExecuteLoop ctx rc r rand timerFirst req 1 [] None [] script c"


text \<open>Example configuration: two providers that both serve the model "gpt-4".\<close>

definition openaiConfig :: ProviderConfig where
  "openaiConfig =
     \<lparr>Name = ''openai'', BaseURL = ''http://openai'', APIKey = ''k1'', Models = [''gpt-4''],
      Priority = 1\<rparr>"

definition anthropicConfig :: ProviderConfig where
  "anthropicConfig =
     \<lparr>Name = ''anthropic'', BaseURL = ''http://anthropic'', APIKey = ''k2'',
      Models = [''gpt-4''], Priority = 2\<rparr>"

definition gptRequest :: Request where
  "gptRequest = \<lparr>Model = ''gpt-4'', PreferredProvider = []\<rparr>"

definition goRetryConfig :: GoRetryConfig where
  "goRetryConfig = \<lparr>MaxRetries = 3, BaseBackoff = 2000, MaxBackoff = 60000\<rparr>"

definition noJitter :: "int \<Rightarrow> rat" where
  "noJitter n = 0"

text \<open>A context that is never done, as \<^verbatim>\<open>context.Background()\<close>, and a select that takes the timer.\<close>

definition background :: Context where
  "background = \<lparr>doneAt = None, doneErr = Canceled\<rparr>"

definition timerWins :: "int \<Rightarrow> bool" where
  "timerWins n = True"

text \<open>A client at time 10 whose breaker for "openai" opened at time 0, with timeout 60.\<close>

definition openaiBreakerOpen :: GoCircuitBreaker where
  "openaiBreakerOpen = (NewCircuitBreaker ''openai'' 5 60)\<lparr>go_state := StateOpen, failureCount := 5\<rparr>"

definition clientOpenaiOpen :: HTTPClient where
  "clientOpenaiOpen =
     \<lparr>circuitBreakers = [''openai'' \<mapsto> openaiBreakerOpen],
      cfg_threshold = 5, cfg_timeout = 60, go_clock = 10\<rparr>"

definition okReply :: GoReply where
  "okReply = \<lparr>go_latency = 1, http = Response 200 True, transform = TransformOk\<rparr>"


section \<open>Streaming relay (src/provider/streamingClient.ts, src/handlers/streaming.ts)\<close>

text \<open>
  \<^verbatim>\<open>JSON.parse(data)\<close> followed by \<^verbatim>\<open>parsed.choices?.[0]?.delta?.content\<close> is a
  parameter \<open>parse\<close> of the relay: it either throws (\<open>Malformed\<close>) or yields the content
  delta, a string or nothing (the type of \<^verbatim>\<open>StreamChunk\<close> makes it
  \<^verbatim>\<open>content?: string\<close>). The callbacks themselves do not throw.
\<close>

datatype Parsed = Malformed | Delta "string option"

text \<open>
  What one \<^verbatim>\<open>reader.read()\<close> brings: decoded text, the end of the body, a rejection, or
  nothing within \<^verbatim>\<open>chunkTimeout\<close>, in which case the chunk timer fires. An upstream
  whose script is used up stays silent, and the timer fires as well.
\<close>

datatype ReadResult = Chunk string | Done | ReadFailed | Silence

datatype Connect = Connected | BadStatus int | NoBody | FetchFailed

text \<open>
  The relay's trace: the one \<^verbatim>\<open>fetch\<close> it starts with and the callbacks it invokes, in
  order. \<open>OnError msg partial\<close> carries \<^verbatim>\<open>partialContent\<close>.
\<close>

datatype StreamEvent = Fetch string | OnChunk string | OnDone | OnError string string

text \<open>JavaScript's \<^verbatim>\<open>split('\n')\<close>: always at least one piece.\<close>

fun splitNL :: "string \<Rightarrow> string list" where
  "splitNL [] = [[]]"
| "splitNL (c # cs) =
     (if c = CHR 0x0A then [] # splitNL cs
      else (case splitNL cs of
              l # ls \<Rightarrow> (c # l) # ls
            | [] \<Rightarrow> [[c]]))"

text \<open>
  \<^verbatim>\<open>trim()\<close>. The characters of a string are the code units below 256 here; of the
  white space and line terminators that \<^verbatim>\<open>trim()\<close> strips, these are the six ASCII
  characters and the no-break space U+00A0.
\<close>

definition isSpace :: "char \<Rightarrow> bool" where
  "isSpace c = (c \<in> {CHR '' '', CHR 0x09, CHR 0x0A, CHR 0x0B, CHR 0x0C, CHR 0x0D, CHR 0xA0})"

definition trim :: "string \<Rightarrow> string" where
  "trim s = rev (dropWhile isSpace (rev (dropWhile isSpace s)))"

datatype LineResult = Continue string "StreamEvent list" | Return "StreamEvent list"

text \<open>The body of the loop over the complete lines of the buffer.\<close>

definition processLine :: "(string \<Rightarrow> Parsed) \<Rightarrow> string \<Rightarrow> string \<Rightarrow> LineResult" where
  "processLine parse line partialContent =
     (if take 6 line = ''data: '' then
        (let data = trim (drop 6 line) in
         if data = ''[DONE]'' then Return [OnDone]
         else
           (case parse data of
              Malformed \<Rightarrow> Return [OnError ''Malformed chunk'' partialContent]
            | Delta content \<Rightarrow>
                (case content of
                   Some c \<Rightarrow>
                     if c \<noteq> [] then Continue (partialContent @ c) [OnChunk data]
                     else Continue partialContent []
                 | None \<Rightarrow> Continue partialContent [])))
      else Continue partialContent [])"

fun processLines :: "(string \<Rightarrow> Parsed) \<Rightarrow> string list \<Rightarrow> string \<Rightarrow> LineResult" where
  "processLines parse [] partialContent = Continue partialContent []"
| "processLines parse (line # lines) partialContent =
     (case processLine parse line partialContent of
        Return evs \<Rightarrow> Return evs
      | Continue partialContent' evs \<Rightarrow>
          (case processLines parse lines partialContent' of
             Return evs' \<Rightarrow> Return (evs @ evs')
           | Continue partialContent'' evs' \<Rightarrow> Continue partialContent'' (evs @ evs')))"

text \<open>The \<^verbatim>\<open>while (true)\<close> loop over the reads, with the chunk timer.\<close>

fun readLoop :: "(string \<Rightarrow> Parsed) \<Rightarrow> ReadResult list \<Rightarrow> string \<Rightarrow> string \<Rightarrow> StreamEvent list" where
  "readLoop parse [] buffer partialContent =
     [OnError ''Stream stalled - chunk timeout'' partialContent]"
| "readLoop parse (Silence # reads) buffer partialContent =
     [OnError ''Stream stalled - chunk timeout'' partialContent]"
| "readLoop parse (Done # reads) buffer partialContent = [OnDone]"
| "readLoop parse (ReadFailed # reads) buffer partialContent =
     [OnError ''Stream failed'' partialContent]"
| "readLoop parse (Chunk v # reads) buffer partialContent =
     (let lines = splitNL (buffer @ v);
          buffer' = last lines
      in case processLines parse (butlast lines) partialContent of
           Return evs \<Rightarrow> evs
         | Continue partialContent' evs \<Rightarrow> evs @ readLoop parse reads buffer' partialContent')"

definition streamRequest ::
  "(string \<Rightarrow> Parsed) \<Rightarrow> string \<Rightarrow> Connect \<Rightarrow> ReadResult list \<Rightarrow> StreamEvent list" where
  "streamRequest parse u conn reads =
     Fetch u #
     (case conn of
        Connected \<Rightarrow> readLoop parse reads [] []
      | BadStatus st \<Rightarrow> [OnError ''Provider returned an error status'' []]
      | NoBody \<Rightarrow> [OnError ''No response body'' []]
      | FetchFailed \<Rightarrow> [OnError ''Stream failed'' []])"

text \<open>
  The handler of a streaming request: it sets the headers, calls \<open>streamRequest\<close> once
  for the configured provider URL, and turns each callback into writes on the response.
\<close>

datatype Output =
    FlushHeaders
  | ProviderRequest string
  | Write string
  | WriteErrorEvent string string
  | EndResponse

definition respond :: "StreamEvent \<Rightarrow> Output list" where
  "respond ev =
     (case ev of
        Fetch u \<Rightarrow> [ProviderRequest u]
      | OnChunk chunk \<Rightarrow> [Write (''data: '' @ chunk @ [CHR 0x0A, CHR 0x0A])]
      | OnDone \<Rightarrow> [Write (''data: [DONE]'' @ [CHR 0x0A, CHR 0x0A]), EndResponse]
      | OnError msg partialContent \<Rightarrow> [WriteErrorEvent msg partialContent, EndResponse])"

definition streamingHandler ::
  "(string \<Rightarrow> Parsed) \<Rightarrow> string \<Rightarrow> Connect \<Rightarrow> ReadResult list \<Rightarrow> Output list" where
  "streamingHandler parse providerUrl conn reads =
     FlushHeaders # concat (map respond (streamRequest parse providerUrl conn reads))"

text \<open>The content delta that a forwarded payload carries, and the payloads a trace forwarded.\<close>

definition deltaOf :: "(string \<Rightarrow> Parsed) \<Rightarrow> string \<Rightarrow> string" where
  "deltaOf parse data = (case parse data of Delta (Some c) \<Rightarrow> c | _ \<Rightarrow> [])"

fun forwarded :: "StreamEvent list \<Rightarrow> string list" where
  "forwarded [] = []"
| "forwarded (OnChunk d # evs) = d # forwarded evs"
| "forwarded (_ # evs) = forwarded evs"

fun isFetch :: "StreamEvent \<Rightarrow> bool" where
  "isFetch (Fetch _) = True"
| "isFetch _ = False"

fun isProviderRequest :: "Output \<Rightarrow> bool" where
  "isProviderRequest (ProviderRequest _) = True"
| "isProviderRequest _ = False"

text \<open>A stand-in for the JSON decoder in examples: the payload is its own content delta.\<close>

definition plainParse :: "string \<Rightarrow> Parsed" where
  "plainParse data =
     (if data = ''{broken'' then Malformed
      else if data = ''{}'' then Delta None
      else Delta (Some data))"


section \<open>Recording a success\<close>

text \<open>
  C5 (as stated): for every provider and in every circuit state, recordSuccess resets the
  consecutive-failure count to 0, and if the circuit is HalfOpen it transitions to Closed.
  The three-state breaker does not do that: in state closed one success lowers the count
  by one, and in state open it leaves the count alone. With a closed breaker that has
  counted two failures, the count after a success is 1; with an open breaker that has
  counted five, it stays 5.
\<close>

theorem RecordSuccess_no_reset_counterexample:
  "failureCount (RecordSuccess ((NewCircuitBreaker ''openai'' 5 60)\<lparr>failureCount := 2\<rparr>)) = 1
   \<and> failureCount (RecordSuccess
        ((NewCircuitBreaker ''openai'' 5 60)\<lparr>go_state := StateOpen, failureCount := 5\<rparr>)) = 5"
  by (simp add: RecordSuccess_def NewCircuitBreaker_def)

text \<open>
  C5 (amended): the two-state recordSuccess resets the consecutive-failure count to 0 in
  every state and leaves the state alone. The three-state RecordSuccess counts the
  success and then: from half-open it closes the circuit and resets the failure count
  to 0; in state closed it lowers a positive failure count by one; in state open it
  changes neither the state nor the failure count.
\<close>

theorem recordSuccess_effect:
  "consecutiveFails (recordSuccess cb) = 0
   \<and> cb_state (recordSuccess cb) = cb_state cb
   \<and> successCount (RecordSuccess g) = successCount g + 1
   \<and> (go_state g = StateHalfOpen \<longrightarrow>
        go_state (RecordSuccess g) = StateClosed \<and> failureCount (RecordSuccess g) = 0)
   \<and> (go_state g = StateClosed \<longrightarrow>
        go_state (RecordSuccess g) = StateClosed
        \<and> failureCount (RecordSuccess g)
            = (if failureCount g > 0 then failureCount g - 1 else failureCount g))
   \<and> (go_state g = StateOpen \<longrightarrow>
        go_state (RecordSuccess g) = StateOpen
        \<and> failureCount (RecordSuccess g) = failureCount g)"
  by (simp add: recordSuccess_def RecordSuccess_def Let_def)

theorem recordSuccess_effect_witness:
  "go_state ((NewCircuitBreaker ''openai'' 5 60)\<lparr>go_state := StateHalfOpen, failureCount := 6\<rparr>)
     = StateHalfOpen
   \<and> go_state (RecordSuccess
        ((NewCircuitBreaker ''openai'' 5 60)\<lparr>go_state := StateHalfOpen, failureCount := 6\<rparr>))
     = StateClosed
   \<and> failureCount (RecordSuccess
        ((NewCircuitBreaker ''openai'' 5 60)\<lparr>go_state := StateHalfOpen, failureCount := 6\<rparr>))
     = 0
   \<and> consecutiveFails (recordSuccess ((newCircuitBreaker ''openai'')\<lparr>consecutiveFails := 2\<rparr>)) = 0"
  using recordSuccess_effect
    [of "(newCircuitBreaker ''openai'')\<lparr>consecutiveFails := 2\<rparr>"
        "(NewCircuitBreaker ''openai'' 5 60)\<lparr>go_state := StateHalfOpen, failureCount := 6\<rparr>"]
  by (simp add: NewCircuitBreaker_def)


section \<open>Admission after the reset timeout\<close>

text \<open>
  C1 (as stated): for every provider whose circuit is Open and whose resetTimeout has
  elapsed, the first canExecute call transitions the circuit to HalfOpen and returns
  true, and every other canExecute call on that provider during that same window returns
  false, so that at most one HalfOpen probe is outstanding.
  Neither breaker rejects the second caller. In the Go breaker (opened at time 0,
  timeout 60) the first IsOpen at time 61 moves to half-open and reports "not open";
  a second IsOpen at the same time 61, on the half-open breaker, reports "not open" too.
  In the TypeScript breaker (last failure at 0, reset timeout 30000) the first
  canExecute at 30001 closes the circuit and returns true, and so does the second.
\<close>

theorem second_probe_admitted_counterexample:
  "IsOpen 61 ((NewCircuitBreaker ''openai'' 5 60)\<lparr>go_state := StateOpen, failureCount := 5\<rparr>)
     = (False, (NewCircuitBreaker ''openai'' 5 60)\<lparr>go_state := StateHalfOpen, failureCount := 5\<rparr>)
   \<and> fst (IsOpen 61
        ((NewCircuitBreaker ''openai'' 5 60)\<lparr>go_state := StateHalfOpen, failureCount := 5\<rparr>))
     = False
   \<and> canExecute 30001 ((newCircuitBreaker ''openai'')\<lparr>cb_state := OPEN, consecutiveFails := 3\<rparr>)
     = (True, newCircuitBreaker ''openai'')
   \<and> fst (canExecute 30001 (newCircuitBreaker ''openai'')) = True"
  by (simp add: IsOpen_def NewCircuitBreaker_def canExecute_def newCircuitBreaker_def)

text \<open>
  C1 (amended): for every provider whose circuit is open and whose reset timeout has
  strictly elapsed, the first check makes the transition (to half-open in the Go
  IsOpen, directly to closed with the count reset in the two-state canExecute) and
  admits the caller; every later check on the breaker in that new state, at any time,
  admits its caller as well and changes nothing. No single-probe admission exists.
\<close>

theorem probe_admission_after_timeout:
  "(go_state g = StateOpen \<and> now - openedAt g > timeout g \<longrightarrow>
      IsOpen now g = (False, g\<lparr>go_state := StateHalfOpen\<rparr>)
      \<and> (\<forall>t. IsOpen t (g\<lparr>go_state := StateHalfOpen\<rparr>)
                = (False, g\<lparr>go_state := StateHalfOpen\<rparr>)))
   \<and> (cb_state cb = OPEN \<and> now - lastFailure cb > resetTimeout (cb_config cb) \<longrightarrow>
      canExecute now cb = (True, cb\<lparr>cb_state := CLOSED, consecutiveFails := 0\<rparr>)
      \<and> (\<forall>t. canExecute t (cb\<lparr>cb_state := CLOSED, consecutiveFails := 0\<rparr>)
                = (True, cb\<lparr>cb_state := CLOSED, consecutiveFails := 0\<rparr>)))"
  by (simp add: IsOpen_def canExecute_def Let_def)

theorem probe_admission_after_timeout_witness:
  "go_state ((NewCircuitBreaker ''openai'' 5 60)\<lparr>go_state := StateOpen\<rparr>) = StateOpen
   \<and> 30001 - openedAt ((NewCircuitBreaker ''openai'' 5 60)\<lparr>go_state := StateOpen\<rparr>)
       > timeout ((NewCircuitBreaker ''openai'' 5 60)\<lparr>go_state := StateOpen\<rparr>)
   \<and> IsOpen 30001 ((NewCircuitBreaker ''openai'' 5 60)\<lparr>go_state := StateOpen\<rparr>)
       = (False, (NewCircuitBreaker ''openai'' 5 60)\<lparr>go_state := StateHalfOpen\<rparr>)
   \<and> cb_state ((newCircuitBreaker ''openai'')\<lparr>cb_state := OPEN\<rparr>) = OPEN
   \<and> 30001 - lastFailure ((newCircuitBreaker ''openai'')\<lparr>cb_state := OPEN\<rparr>)
       > resetTimeout (cb_config ((newCircuitBreaker ''openai'')\<lparr>cb_state := OPEN\<rparr>))
   \<and> canExecute 30001 ((newCircuitBreaker ''openai'')\<lparr>cb_state := OPEN\<rparr>)
       = (True, newCircuitBreaker ''openai'')"
  using probe_admission_after_timeout
    [of "(NewCircuitBreaker ''openai'' 5 60)\<lparr>go_state := StateOpen\<rparr>" 30001
        "(newCircuitBreaker ''openai'')\<lparr>cb_state := OPEN\<rparr>"]
  by (simp add: NewCircuitBreaker_def newCircuitBreaker_def)

section \<open>Rounding to a double\<close>

lemma ilog2_bounds:
  assumes "0 < x"
  shows "2 powi (ilog2 x) \<le> x \<and> x < 2 powi (ilog2 x + 1)"
proof (cases "1 \<le> x")
  case True
  let ?n = "\<lfloor>x\<rfloor>"
  have n: "0 < ?n" using True by simp
  from bitlen_bounds [OF n] have b: "2 ^ nat (bitlen ?n - 1) \<le> ?n" "?n < 2 ^ nat (bitlen ?n)"
    by auto
  have ge1: "1 \<le> bitlen ?n" using n by (auto simp: bitlen_alt_def)
  have e: "ilog2 x = bitlen ?n - 1" using True by (simp add: ilog2_def)
  have "(2::rat) powi (bitlen ?n - 1) = 2 ^ nat (bitlen ?n - 1)"
    using ge1 by (simp add: power_int_nonneg_exp)
  also have "\<dots> = of_int (2 ^ nat (bitlen ?n - 1))" by simp
  also have "\<dots> \<le> of_int ?n" using b(1) by (simp only: of_int_le_iff)
  also have "\<dots> \<le> x" by simp
  finally have lo: "2 powi (ilog2 x) \<le> x" by (simp add: e)
  have "?n + 1 \<le> 2 ^ nat (bitlen ?n)" using b(2) by simp
  then have "(of_int (?n + 1) :: rat) \<le> of_int (2 ^ nat (bitlen ?n))"
    by (simp only: of_int_le_iff)
  moreover have "x < of_int (?n + 1)" using floor_correct [of x] by simp
  ultimately have "x < of_int (2 ^ nat (bitlen ?n))" by linarith
  also have "\<dots> = 2 powi (bitlen ?n)" using ge1 by (simp add: power_int_nonneg_exp)
  finally have hi: "x < 2 powi (ilog2 x + 1)" by (simp add: e)
  from lo hi show ?thesis ..
next
  case False
  then have x1: "x < 1" by simp
  let ?y = "1 / x"
  let ?m = "\<lceil>?y\<rceil>"
  have y1: "1 < ?y" using assms x1 by simp
  have m2: "2 \<le> ?m" using y1 by (simp add: le_ceiling_iff)
  then have m: "0 < ?m - 1" by simp
  let ?k = "bitlen (?m - 1)"
  from bitlen_bounds [OF m] have b: "2 ^ nat (?k - 1) \<le> ?m - 1" "?m - 1 < 2 ^ nat ?k"
    by auto
  have k1: "1 \<le> ?k" using m by (auto simp: bitlen_alt_def)
  have e: "ilog2 x = - ?k" using False by (simp add: ilog2_def)
  define P :: rat where "P = 2 ^ nat ?k"
  define Q :: rat where "Q = 2 ^ nat (?k - 1)"
  have Ppos: "0 < P" and Qpos: "0 < Q" by (simp_all add: P_def Q_def)
  have "?m \<le> 2 ^ nat ?k" using b(2) by simp
  then have "(of_int ?m :: rat) \<le> of_int (2 ^ nat ?k)" by (simp only: of_int_le_iff)
  moreover have "(of_int (2 ^ nat ?k) :: rat) = P" by (simp add: P_def)
  moreover have "?y \<le> of_int ?m" by (rule le_of_int_ceiling)
  ultimately have yP: "?y \<le> P" by linarith
  have "1 \<le> x * P"
  proof -
    have "x * ?y \<le> x * P" using yP assms by (simp only: mult_le_cancel_left_pos)
    then show ?thesis using assms by simp
  qed
  then have "1 / P \<le> x" using Ppos by (simp add: field_simps)
  moreover have "(2::rat) powi (- ?k) = 1 / P"
    using k1 by (simp add: power_int_minus_divide power_int_nonneg_exp P_def)
  ultimately have lo: "2 powi (ilog2 x) \<le> x" by (simp add: e)
  have "(of_int (2 ^ nat (?k - 1)) :: rat) \<le> of_int (?m - 1)"
    using b(1) by (simp only: of_int_le_iff)
  moreover have "(of_int (2 ^ nat (?k - 1)) :: rat) = Q" by (simp add: Q_def)
  moreover have "of_int (?m - 1) < ?y" using ceiling_correct [of ?y] by simp
  ultimately have Qy: "Q < ?y" by linarith
  have "x * Q < 1"
  proof -
    have "x * Q < x * ?y" using Qy assms by (simp only: mult_less_cancel_left_pos)
    then show ?thesis using assms by simp
  qed
  then have "x < 1 / Q" using Qpos by (simp add: field_simps)
  moreover have "(2::rat) powi (- ?k + 1) = 1 / Q"
  proof -
    have "- ?k + 1 = - (?k - 1)" by simp
    then have "(2::rat) powi (- ?k + 1) = 2 powi (- (?k - 1))" by simp
    also have "\<dots> = 1 / 2 powi (?k - 1)" by (rule power_int_minus_divide)
    also have "\<dots> = 1 / Q" using k1 by (simp add: power_int_nonneg_exp Q_def)
    finally show ?thesis .
  qed
  ultimately have hi: "x < 2 powi (ilog2 x + 1)" by (simp add: e)
  from lo hi show ?thesis ..
qed

lemma roundEven_ge: "of_int n \<le> q \<Longrightarrow> n \<le> roundEven q"
proof -
  assume "of_int n \<le> q"
  then have "n \<le> \<lfloor>q\<rfloor>" by (simp add: le_floor_iff)
  then show ?thesis by (auto simp: roundEven_def Let_def)
qed

lemma roundEven_le: "q \<le> of_int n \<Longrightarrow> roundEven q \<le> n"
proof -
  assume q: "q \<le> of_int n"
  show ?thesis
  proof (cases "q = of_int n")
    case True
    then show ?thesis by (simp add: roundEven_def)
  next
    case False
    with q have "q < of_int n" by simp
    then have "\<lfloor>q\<rfloor> < n" by (simp add: floor_less_iff)
    then show ?thesis by (auto simp: roundEven_def Let_def)
  qed
qed

lemma roundEven_mono: "q1 \<le> q2 \<Longrightarrow> roundEven q1 \<le> roundEven q2"
proof -
  assume le: "q1 \<le> q2"
  have f: "\<lfloor>q1\<rfloor> \<le> \<lfloor>q2\<rfloor>" using le by (rule floor_mono)
  show ?thesis
  proof (cases "\<lfloor>q1\<rfloor> = \<lfloor>q2\<rfloor>")
    case True
    then have "q1 - of_int \<lfloor>q1\<rfloor> \<le> q2 - of_int \<lfloor>q2\<rfloor>" using le by simp
    with True show ?thesis by (auto simp: roundEven_def Let_def)
  next
    case False
    with f have "\<lfloor>q1\<rfloor> + 1 \<le> \<lfloor>q2\<rfloor>" by simp
    moreover have "roundEven q1 \<le> \<lfloor>q1\<rfloor> + 1" by (auto simp: roundEven_def Let_def)
    moreover have "\<lfloor>q2\<rfloor> \<le> roundEven q2" by (auto simp: roundEven_def Let_def)
    ultimately show ?thesis by linarith
  qed
qed


lemma ilog2_mono:
  assumes "0 < x" and "x \<le> y"
  shows "ilog2 x \<le> ilog2 y"
proof -
  have "0 < y" using assms by simp
  from ilog2_bounds [OF assms(1)] ilog2_bounds [OF this] assms(2)
  have lt: "(2::rat) powi (ilog2 x) < 2 powi (ilog2 y + 1)" by linarith
  have "ilog2 x < ilog2 y + 1"
  proof (rule ccontr)
    assume "\<not> ilog2 x < ilog2 y + 1"
    then have "ilog2 y + 1 \<le> ilog2 x" by simp
    then have "(2::rat) powi (ilog2 y + 1) \<le> 2 powi (ilog2 x)"
      by (intro power_int_increasing) simp_all
    with lt show False by simp
  qed
  then show ?thesis by simp
qed

lemma binary64_pos:
  assumes "0 < x"
  shows "binary64 x = of_int (roundEven (x / 2 powi (ilog2 x - 52))) * 2 powi (ilog2 x - 52)"
  using assms by (simp add: binary64_def Let_def)

lemma binary64_pos_bounds:
  assumes "0 < x"
  shows "2 powi (ilog2 x) \<le> binary64 x \<and> binary64 x \<le> 2 powi (ilog2 x + 1)"
proof -
  define u :: rat where "u = 2 powi (ilog2 x - 52)"
  have u: "0 < u" by (simp add: u_def)
  have lo_u: "2 powi (ilog2 x) = 2 ^ 52 * u"
    by (simp add: u_def power_int_diff)
  have hi_u: "2 powi (ilog2 x + 1) = 2 ^ 53 * u"
    by (simp add: u_def power_int_diff power_int_add)
  from ilog2_bounds [OF assms] have "2 ^ 52 * u \<le> x" "x < 2 ^ 53 * u"
    by (simp_all add: lo_u hi_u)
  then have q: "of_int (2 ^ 52) \<le> x / u" "x / u \<le> of_int (2 ^ 53)"
    using u by (simp_all add: field_simps)
  have "2 ^ 52 \<le> roundEven (x / u)" using q(1) by (rule roundEven_ge)
  then have "(of_int (2 ^ 52) :: rat) \<le> of_int (roundEven (x / u))" by (simp only: of_int_le_iff)
  then have a: "2 ^ 52 * u \<le> of_int (roundEven (x / u)) * u"
    using u by (simp add: mult_le_cancel_right)
  have "roundEven (x / u) \<le> 2 ^ 53" using q(2) by (rule roundEven_le)
  then have "(of_int (roundEven (x / u)) :: rat) \<le> of_int (2 ^ 53)" by (simp only: of_int_le_iff)
  then have b: "of_int (roundEven (x / u)) * u \<le> 2 ^ 53 * u"
    using u by (simp add: mult_le_cancel_right)
  show ?thesis
    using a b unfolding binary64_pos [OF assms] lo_u hi_u u_def [symmetric] by simp
qed

lemma binary64_mono_pos:
  assumes "0 < x" and "x \<le> y"
  shows "binary64 x \<le> binary64 y"
proof -
  have y: "0 < y" using assms by simp
  have e: "ilog2 x \<le> ilog2 y" using assms by (rule ilog2_mono)
  show ?thesis
  proof (cases "ilog2 x = ilog2 y")
    case True
    define u :: rat where "u = 2 powi (ilog2 y - 52)"
    have u: "0 < u" by (simp add: u_def)
    have "x / u \<le> y / u" using assms(2) u by (simp add: divide_right_mono)
    then have "roundEven (x / u) \<le> roundEven (y / u)" by (rule roundEven_mono)
    then have "(of_int (roundEven (x / u)) :: rat) \<le> of_int (roundEven (y / u))"
      by (simp only: of_int_le_iff)
    then have "of_int (roundEven (x / u)) * u \<le> of_int (roundEven (y / u)) * u"
      using u by (simp add: mult_le_cancel_right)
    then show ?thesis
      unfolding binary64_pos [OF assms(1)] binary64_pos [OF y] True u_def [symmetric] .
  next
    case False
    with e have "ilog2 x + 1 \<le> ilog2 y" by simp
    then have "(2::rat) powi (ilog2 x + 1) \<le> 2 powi (ilog2 y)"
      by (simp add: power_int_increasing)
    with binary64_pos_bounds [OF assms(1)] binary64_pos_bounds [OF y]
    show ?thesis by linarith
  qed
qed

lemma binary64_minus: "binary64 (- x) = - binary64 x"
  by (simp add: binary64_def Let_def)

lemma binary64_nonneg: "0 \<le> x \<Longrightarrow> 0 \<le> binary64 x"
proof (cases "x = 0")
  case True
  then show ?thesis by (simp add: binary64_def)
next
  case False
  assume "0 \<le> x"
  with False have "0 < x" by simp
  from binary64_pos_bounds [OF this] have "2 powi (ilog2 x) \<le> binary64 x" ..
  moreover have "(0::rat) < 2 powi (ilog2 x)" by simp
  ultimately show ?thesis by linarith
qed

lemma binary64_mono:
  assumes "x \<le> y"
  shows "binary64 x \<le> binary64 y"
proof -
  consider (pos) "0 < x" | (neg) "y < 0" | (mid) "x \<le> 0" "0 \<le> y"
    by linarith
  then show ?thesis
  proof cases
    case pos
    then show ?thesis using assms by (rule binary64_mono_pos)
  next
    case neg
    then have "0 < - y" "- y \<le> - x" using assms by simp_all
    then have "binary64 (- y) \<le> binary64 (- x)" by (rule binary64_mono_pos)
    then show ?thesis by (simp add: binary64_minus)
  next
    case mid
    have "0 \<le> binary64 (- x)" using mid(1) by (intro binary64_nonneg) simp
    then have "binary64 x \<le> 0" by (simp add: binary64_minus)
    moreover have "0 \<le> binary64 y" using mid(2) by (rule binary64_nonneg)
    ultimately show ?thesis by linarith
  qed
qed


lemma roundEven_of_int: "roundEven (of_int n) = n"
  by (simp add: roundEven_def)

lemma roundEven_error: "\<bar>of_int (roundEven q) - q\<bar> \<le> 1 / 2"
proof -
  define f where "f = \<lfloor>q\<rfloor>"
  have fl: "of_int f \<le> q" "q < of_int f + 1"
    using floor_correct [of q] by (simp_all add: f_def)
  have "roundEven q = (if q - of_int f < 1 / 2 then f else if q - of_int f > 1 / 2 then f + 1
                       else if even f then f else f + 1)"
    by (simp add: roundEven_def Let_def f_def)
  then show ?thesis using fl by (auto simp: abs_if split: if_splits)
qed

lemma ilog2_less:
  assumes "0 < x" and "x < 2 powi n"
  shows "ilog2 x < n"
proof (rule ccontr)
  assume "\<not> ilog2 x < n"
  then have "n \<le> ilog2 x" by simp
  then have "(2::rat) powi n \<le> 2 powi (ilog2 x)"
    by (intro power_int_increasing) simp_all
  with ilog2_bounds [OF assms(1)] assms(2) show False by linarith
qed

lemma binary64_exact_pos:
  assumes "0 < m" and "m < 2 ^ 53"
  shows "binary64 (of_int m * 2 powi z) = of_int m * 2 powi z"
proof -
  define x :: rat where "x = of_int m * 2 powi z"
  define u :: rat where "u = 2 powi (ilog2 x - 52)"
  have x: "0 < x" using assms(1) by (simp add: x_def)
  have u: "0 < u" by (simp add: u_def)
  have "(of_int m :: rat) < of_int (2 ^ 53)" using assms(2) by (simp only: of_int_less_iff)
  then have "x < 2 ^ 53 * 2 powi z" by (simp add: x_def)
  also have "\<dots> = 2 powi (53 + z)" by (simp add: power_int_add)
  finally have "ilog2 x < 53 + z" using x by (intro ilog2_less)
  then have d: "0 \<le> z - (ilog2 x - 52)" by simp
  define n where "n = nat (z - (ilog2 x - 52))"
  have "(2::rat) powi z = 2 powi (int n + (ilog2 x - 52))"
    using d by (simp add: n_def)
  also have "\<dots> = 2 ^ n * u"
    by (simp add: power_int_add u_def)
  finally have z: "(2::rat) powi z = 2 ^ n * u" .
  have xu: "x = of_int (m * 2 ^ n) * u"
    unfolding x_def z by simp
  have q: "x / u = of_int (m * 2 ^ n)"
    using u by (simp add: xu)
  have "binary64 x = of_int (roundEven (x / u)) * u"
    unfolding u_def using x by (rule binary64_pos)
  also have "\<dots> = of_int (m * 2 ^ n) * u"
    by (simp only: q roundEven_of_int)
  also have "\<dots> = x" by (simp only: xu)
  finally show ?thesis by (simp only: x_def)
qed

lemma binary64_exact:
  assumes "\<bar>m\<bar> < 2 ^ 53"
  shows "binary64 (of_int m * 2 powi z) = of_int m * 2 powi z"
proof -
  consider (pos) "0 < m" | (zero) "m = 0" | (neg) "m < 0" by linarith
  then show ?thesis
  proof cases
    case pos
    then show ?thesis using assms by (intro binary64_exact_pos) simp_all
  next
    case zero
    then show ?thesis by (simp add: binary64_def)
  next
    case neg
    then have "binary64 (of_int (- m) * 2 powi z) = of_int (- m) * 2 powi z"
      using assms by (intro binary64_exact_pos) simp_all
    then have "binary64 (- (of_int m * 2 powi z)) = - (of_int m * 2 powi z)" by simp
    then show ?thesis by (simp only: binary64_minus neg_equal_iff_equal)
  qed
qed

lemma binary64_of_int: "\<bar>m\<bar> < 2 ^ 53 \<Longrightarrow> binary64 (of_int m) = of_int m"
  using binary64_exact [of m 0] by simp

lemma binary64_error_pos:
  assumes "0 < x"
  shows "\<bar>binary64 x - x\<bar> \<le> x / 2 ^ 53"
proof -
  define u :: rat where "u = 2 powi (ilog2 x - 52)"
  have u: "0 < u" by (simp add: u_def)
  have "2 powi (ilog2 x) = 2 ^ 52 * u" by (simp add: u_def power_int_diff)
  with ilog2_bounds [OF assms] have ux: "2 ^ 52 * u \<le> x" by simp
  have b: "binary64 x = of_int (roundEven (x / u)) * u"
    unfolding u_def using assms by (rule binary64_pos)
  have "binary64 x - x = (of_int (roundEven (x / u)) - x / u) * u"
    using u by (simp add: b algebra_simps)
  then have "\<bar>binary64 x - x\<bar> = \<bar>of_int (roundEven (x / u)) - x / u\<bar> * u"
    using u by (simp add: abs_mult)
  also have "\<dots> \<le> (1 / 2) * u"
    using u roundEven_error [of "x / u"] by (intro mult_right_mono) simp_all
  also have "\<dots> \<le> x / 2 ^ 53" using ux by simp
  finally show ?thesis .
qed

lemma binary64_error: "\<bar>binary64 x - x\<bar> \<le> \<bar>x\<bar> / 2 ^ 53"
proof -
  consider (pos) "0 < x" | (zero) "x = 0" | (neg) "x < 0" by linarith
  then show ?thesis
  proof cases
    case pos
    then show ?thesis using binary64_error_pos [of x] by simp
  next
    case zero
    then show ?thesis by (simp add: binary64_def)
  next
    case neg
    then have "\<bar>binary64 (- x) - (- x)\<bar> \<le> (- x) / 2 ^ 53"
      by (intro binary64_error_pos) simp
    then have "\<bar>- (binary64 x - x)\<bar> \<le> (- x) / 2 ^ 53"
      by (simp add: binary64_minus)
    then show ?thesis using neg by (simp only: abs_minus_cancel abs_of_neg)
  qed
qed

section \<open>Backoff before a retry\<close>

lemma binary64_04: "binary64 (4 / 10) = 3602879701896397 / 9007199254740992"
  by code_simp

lemma binary64_02: "binary64 (2 / 10) = 3602879701896397 / 18014398509481984"
  by code_simp

lemma binary64_08: "binary64 (8 / 10) = 3602879701896397 / 4503599627370496"
  by code_simp

lemma binary64_12: "binary64 (12 / 10) = 5404319552844595 / 4503599627370496"
  by code_simp

lemma binary64_05: "binary64 (5 / 10) = 1 / 2"
  by code_simp

lemma jitter_steps:
  "binary64 (3602879701896397 / 9007199254740992) = 3602879701896397 / 9007199254740992"
  "binary64 (3602879701896397 / 9007199254740992 - 3602879701896397 / 18014398509481984)
     = 3602879701896397 / 18014398509481984"
  "binary64 (- (3602879701896397 / 18014398509481984)) = - (3602879701896397 / 18014398509481984)"
  "binary64 (1 - 3602879701896397 / 18014398509481984) = 3602879701896397 / 4503599627370496"
  "binary64 (1 + 3602879701896397 / 18014398509481984) = 5404319552844595 / 4503599627370496"
  by code_simp+

lemma jitter_inner:
  assumes "0 \<le> r" and "r < 1"
  shows "- (3602879701896397 / 18014398509481984)
           \<le> binary64 (binary64 (r * binary64 (4 / 10)) - binary64 (2 / 10))
       \<and> binary64 (binary64 (r * binary64 (4 / 10)) - binary64 (2 / 10))
           \<le> 3602879701896397 / 18014398509481984"
proof -
  define a where "a = binary64 (r * (3602879701896397 / 9007199254740992))"
  have "0 \<le> r * (3602879701896397 / 9007199254740992 :: rat)" using assms by simp
  then have a0: "0 \<le> a" unfolding a_def by (rule binary64_nonneg)
  have "r * (3602879701896397 / 9007199254740992) \<le> 3602879701896397 / 9007199254740992"
    using assms by simp
  then have "a \<le> binary64 (3602879701896397 / 9007199254740992)"
    unfolding a_def by (rule binary64_mono)
  then have a1: "a \<le> 3602879701896397 / 9007199254740992" by (simp only: jitter_steps)
  have "- (3602879701896397 / 18014398509481984) \<le> a - 3602879701896397 / 18014398509481984"
    using a0 by simp
  then have "binary64 (- (3602879701896397 / 18014398509481984))
               \<le> binary64 (a - 3602879701896397 / 18014398509481984)"
    by (rule binary64_mono)
  then have lo: "- (3602879701896397 / 18014398509481984)
                   \<le> binary64 (a - 3602879701896397 / 18014398509481984)"
    by (simp only: jitter_steps)
  have "a - 3602879701896397 / 18014398509481984
          \<le> 3602879701896397 / 9007199254740992 - 3602879701896397 / 18014398509481984"
    using a1 by simp
  then have "binary64 (a - 3602879701896397 / 18014398509481984)
          \<le> binary64 (3602879701896397 / 9007199254740992 - 3602879701896397 / 18014398509481984)"
    by (rule binary64_mono)
  then have hi: "binary64 (a - 3602879701896397 / 18014398509481984)
                   \<le> 3602879701896397 / 18014398509481984"
    by (simp only: jitter_steps)
  from lo hi show ?thesis by (simp only: binary64_04 binary64_02 a_def)
qed

lemma jitter_bounds:
  assumes "0 \<le> r" and "r < 1"
  shows "binary64 (8 / 10) \<le> jitter r \<and> jitter r \<le> binary64 (12 / 10)"
proof -
  define b where "b = binary64 (binary64 (r * binary64 (4 / 10)) - binary64 (2 / 10))"
  from jitter_inner [OF assms]
  have b: "- (3602879701896397 / 18014398509481984) \<le> b" "b \<le> 3602879701896397 / 18014398509481984"
    by (simp_all only: b_def)
  have "1 - 3602879701896397 / 18014398509481984 \<le> 1 + b" using b(1) by simp
  then have "binary64 (1 - 3602879701896397 / 18014398509481984) \<le> binary64 (1 + b)"
    by (rule binary64_mono)
  then have lo: "binary64 (8 / 10) \<le> binary64 (1 + b)" by (simp only: jitter_steps binary64_08)
  have "1 + b \<le> 1 + 3602879701896397 / 18014398509481984" using b(2) by simp
  then have "binary64 (1 + b) \<le> binary64 (1 + 3602879701896397 / 18014398509481984)"
    by (rule binary64_mono)
  then have hi: "binary64 (1 + b) \<le> binary64 (12 / 10)" by (simp only: jitter_steps binary64_12)
  from lo hi show ?thesis by (simp only: jitter_def b_def)
qed


lemma jitter_error:
  assumes "0 \<le> r" and "r < 1"
  shows "\<bar>jitter r - (8 / 10 + r * (4 / 10))\<bar> \<le> 1 / 2 ^ 51"
proof -
  define c4 :: rat where "c4 = 3602879701896397 / 9007199254740992"
  define c2 :: rat where "c2 = 3602879701896397 / 18014398509481984"
  define a where "a = binary64 (r * c4)"
  define b where "b = binary64 (a - c2)"
  have j: "jitter r = binary64 (1 + b)"
    by (simp only: jitter_def b_def a_def c4_def c2_def binary64_04 binary64_02)
  have "0 \<le> r * c4" using assms by (simp add: c4_def)
  then have a0: "0 \<le> a" unfolding a_def by (rule binary64_nonneg)
  have "r * c4 \<le> c4" using assms by (simp add: c4_def)
  then have "a \<le> binary64 c4" unfolding a_def by (rule binary64_mono)
  then have a1: "a \<le> c4" by (simp only: c4_def jitter_steps)
  from jitter_inner [OF assms] have b01: "- c2 \<le> b" "b \<le> c2"
    by (simp_all only: b_def a_def c4_def c2_def binary64_04 binary64_02)
  have rc: "0 \<le> r * c4" "r * c4 \<le> c4" using assms by (simp_all add: c4_def)
  have ea: "\<bar>a - r * c4\<bar> \<le> c4 / 2 ^ 53"
  proof -
    have "\<bar>a - r * c4\<bar> \<le> \<bar>r * c4\<bar> / 2 ^ 53" unfolding a_def by (rule binary64_error)
    also have "\<dots> \<le> c4 / 2 ^ 53" using rc by (simp add: divide_right_mono)
    finally show ?thesis .
  qed
  have eb: "\<bar>b - (a - c2)\<bar> \<le> c2 / 2 ^ 53"
  proof -
    have "\<bar>b - (a - c2)\<bar> \<le> \<bar>a - c2\<bar> / 2 ^ 53" unfolding b_def by (rule binary64_error)
    also have "\<bar>a - c2\<bar> \<le> c2" using a0 a1 unfolding c4_def c2_def abs_le_iff by linarith
    finally show ?thesis by (simp add: divide_right_mono)
  qed
  have ej: "\<bar>jitter r - (1 + b)\<bar> \<le> (1 + c2) / 2 ^ 53"
  proof -
    have "\<bar>jitter r - (1 + b)\<bar> \<le> \<bar>1 + b\<bar> / 2 ^ 53" unfolding j by (rule binary64_error)
    also have "\<bar>1 + b\<bar> \<le> 1 + c2" using b01 unfolding c2_def abs_le_iff by linarith
    finally show ?thesis by (simp add: divide_right_mono)
  qed
  have d: "\<bar>(1 + (r * c4 - c2)) - (8 / 10 + r * (4 / 10))\<bar> \<le> 1 / 2 ^ 53"
  proof -
    have e: "(1 + (r * c4 - c2)) - (8 / 10 + r * (4 / 10)) = (2 * r - 1) / 90071992547409920"
      by (simp add: c4_def c2_def field_simps)
    have "\<bar>(2 * r - 1) / 90071992547409920\<bar> \<le> 1 / 2 ^ 53"
      using assms by (simp add: abs_le_iff)
    then show ?thesis by (simp only: e)
  qed
  have k: "(c4 + c2 + (1 + c2) + 1) / 2 ^ 53 \<le> 1 / 2 ^ 51"
    by (simp add: c4_def c2_def)
  have "\<bar>jitter r - (8 / 10 + r * (4 / 10))\<bar>
          \<le> c4 / 2 ^ 53 + c2 / 2 ^ 53 + (1 + c2) / 2 ^ 53 + 1 / 2 ^ 53"
    using ea eb ej d by (simp only: abs_le_iff) linarith
  also have "\<dots> = (c4 + c2 + (1 + c2) + 1) / 2 ^ 53" by (simp add: add_divide_distrib)
  finally show ?thesis using k by linarith
qed


lemma powi_nat: "1 \<le> k \<Longrightarrow> (2::rat) powi (k - 1) = 2 ^ nat (k - 1)"
  by (simp add: power_int_def)

lemma cappedWait_exact:
  assumes "1 \<le> k" and "\<bar>baseDelay rc\<bar> < 2 ^ 53" and "\<bar>maxDelay rc\<bar> < 2 ^ 53"
  shows "cappedWait rc k = of_int (min (baseDelay rc * 2 ^ nat (k - 1)) (maxDelay rc))"
proof -
  have "binary64 (of_int (baseDelay rc) * 2 powi (k - 1)) = of_int (baseDelay rc) * 2 powi (k - 1)"
    using assms(2) by (rule binary64_exact)
  then have "cappedWait rc k = min (of_int (baseDelay rc) * 2 powi (k - 1)) (of_int (maxDelay rc))"
    by (simp add: cappedWait_def binary64_of_int [OF assms(2)] binary64_of_int [OF assms(3)])
  also have "of_int (baseDelay rc) * (2::rat) powi (k - 1) = of_int (baseDelay rc * 2 ^ nat (k - 1))"
    by (simp add: powi_nat [OF assms(1)])
  finally show ?thesis by (simp only: of_int_min)
qed

lemma backoff_bounds:
  assumes w: "0 \<le> w" "w < 2 ^ 51" and r: "0 \<le> r" "r < 1"
  shows "\<lfloor>(8 / 10 :: rat) * of_int w\<rfloor> \<le> \<lfloor>binary64 (of_int w * jitter r)\<rfloor>
       \<and> \<lfloor>binary64 (of_int w * jitter r)\<rfloor> \<le> \<lceil>(12 / 10 :: rat) * of_int w\<rceil>"
proof
  from jitter_bounds [OF r]
  have "3602879701896397 / 4503599627370496 \<le> jitter r"
    and "jitter r \<le> 5404319552844595 / 4503599627370496"
    by (simp_all only: binary64_08 binary64_12)
  then have j: "8 / 10 \<le> jitter r" "jitter r \<le> 12 / 10"
    by linarith+
  have w0: "(0::rat) \<le> of_int w" using w(1) by simp
  have w1: "(of_int w :: rat) < 2 ^ 51"
    using w(2) of_int_less_iff [of w "2 ^ 51", where ?'a = rat] by simp
  define lo where "lo = \<lfloor>(8 / 10 :: rat) * of_int w\<rfloor>"
  define hi where "hi = \<lceil>(12 / 10 :: rat) * of_int w\<rceil>"
  have lo_le: "of_int lo \<le> (8 / 10 :: rat) * of_int w"
    unfolding lo_def by (rule of_int_floor_le)
  have lo_ge: "(8 / 10 :: rat) * of_int w < of_int lo + 1"
    unfolding lo_def using floor_correct [of "(8 / 10 :: rat) * of_int w"] by simp
  have hi_ge: "(12 / 10 :: rat) * of_int w \<le> of_int hi"
    unfolding hi_def by (rule le_of_int_ceiling)
  have hi_le: "of_int hi < (12 / 10 :: rat) * of_int w + 1"
    unfolding hi_def using ceiling_correct [of "(12 / 10 :: rat) * of_int w"] by simp
  have "(-1 :: rat) < of_int lo" "(of_int lo :: rat) < 2 ^ 53" using lo_le lo_ge w0 w1 by simp_all
  then have "-1 < lo" "lo < 2 ^ 53"
    using of_int_less_iff [of "-1" lo, where ?'a = rat]
          of_int_less_iff [of lo "2 ^ 53", where ?'a = rat] by simp_all
  then have lo53: "\<bar>lo\<bar> < 2 ^ 53" by simp
  have "(-1 :: rat) < of_int hi" "(of_int hi :: rat) < 2 ^ 53" using hi_le hi_ge w0 w1 by simp_all
  then have "-1 < hi" "hi < 2 ^ 53"
    using of_int_less_iff [of "-1" hi, where ?'a = rat]
          of_int_less_iff [of hi "2 ^ 53", where ?'a = rat] by simp_all
  then have hi53: "\<bar>hi\<bar> < 2 ^ 53" by simp
  have "(8 / 10) * of_int w \<le> of_int w * jitter r"
    using mult_left_mono [OF j(1) w0] by (simp add: mult.commute)
  with lo_le have "of_int lo \<le> of_int w * jitter r" by linarith
  then have "binary64 (of_int lo) \<le> binary64 (of_int w * jitter r)" by (rule binary64_mono)
  then have "of_int lo \<le> binary64 (of_int w * jitter r)"
    by (simp only: binary64_of_int [OF lo53])
  then show "\<lfloor>(8 / 10 :: rat) * of_int w\<rfloor> \<le> \<lfloor>binary64 (of_int w * jitter r)\<rfloor>"
    unfolding lo_def [symmetric] by (simp only: le_floor_iff)
  have "of_int w * jitter r \<le> (12 / 10) * of_int w"
    using mult_left_mono [OF j(2) w0] by (simp add: mult.commute)
  with hi_ge have "of_int w * jitter r \<le> of_int hi" by linarith
  then have "binary64 (of_int w * jitter r) \<le> binary64 (of_int hi)" by (rule binary64_mono)
  then have "binary64 (of_int w * jitter r) \<le> of_int hi"
    by (simp only: binary64_of_int [OF hi53])
  moreover have "of_int \<lfloor>binary64 (of_int w * jitter r)\<rfloor> \<le> binary64 (of_int w * jitter r)"
    by (rule of_int_floor_le)
  ultimately have "(of_int \<lfloor>binary64 (of_int w * jitter r)\<rfloor> :: rat) \<le> of_int hi" by linarith
  then show "\<lfloor>binary64 (of_int w * jitter r)\<rfloor> \<le> \<lceil>(12 / 10 :: rat) * of_int w\<rceil>"
    unfolding hi_def [symmetric] by (simp only: of_int_le_iff)
qed


lemma Orchestrator_calculateBackoff_eq:
  assumes "1 \<le> k" and "\<bar>BaseBackoff g\<bar> < 2 ^ 53" and "\<bar>MaxBackoff g\<bar> < 2 ^ 53"
  shows "Orchestrator_calculateBackoff g k r
           = toDuration (min (binary64 (of_int (BaseBackoff g * 2 ^ nat (k - 1))
                                + binary64 (binary64 (of_int (BaseBackoff g * 2 ^ nat (k - 1)) * r)
                                            * (1 / 2))))
                             (of_int (MaxBackoff g)))"
proof -
  have "binary64 (of_int (BaseBackoff g) * 2 powi (k - 1)) = of_int (BaseBackoff g) * 2 powi (k - 1)"
    using assms(2) by (rule binary64_exact)
  also have "\<dots> = of_int (BaseBackoff g * 2 ^ nat (k - 1))"
    by (simp add: powi_nat [OF assms(1)])
  finally have b: "binary64 (of_int (BaseBackoff g) * 2 powi (k - 1))
                     = of_int (BaseBackoff g * 2 ^ nat (k - 1))" .
  show ?thesis
    unfolding Orchestrator_calculateBackoff_def Let_def
      binary64_of_int [OF assms(2)] binary64_of_int [OF assms(3)] b binary64_05
    by (simp add: min_def)
qed

lemma total_bounds:
  assumes k: "1 \<le> k" and m: "0 \<le> m" "m < 2 ^ 51" and r: "0 \<le> r" "r < 1"
  shows "of_int (m * 2 ^ nat (k - 1))
           \<le> binary64 (of_int (m * 2 ^ nat (k - 1))
                        + binary64 (binary64 (of_int (m * 2 ^ nat (k - 1)) * r) * (1 / 2)))
       \<and> 2 * binary64 (of_int (m * 2 ^ nat (k - 1))
                        + binary64 (binary64 (of_int (m * 2 ^ nat (k - 1)) * r) * (1 / 2)))
           \<le> 3 * of_int (m * 2 ^ nat (k - 1))"
proof -
  define b :: rat where "b = of_int (m * 2 ^ nat (k - 1))"
  define j where "j = binary64 (binary64 (b * r) * (1 / 2))"
  have b0: "0 \<le> b" using m(1) by (simp add: b_def)
  have bp: "b = of_int m * 2 powi (k - 1)" by (simp add: b_def powi_nat [OF k])
  have m53: "\<bar>m\<bar> < 2 ^ 53" using m by simp
  have m3: "\<bar>3 * m\<bar> < 2 ^ 53" using m by simp
  have xb: "binary64 b = b" unfolding bp using m53 by (rule binary64_exact)
  have h: "b / 2 = of_int m * 2 powi (k - 1 - 1)"
    by (simp add: bp power_int_diff)
  have xh: "binary64 (b / 2) = b / 2"
    unfolding h using m53 by (rule binary64_exact)
  have h3: "b + b / 2 = of_int (3 * m) * 2 powi (k - 1 - 1)"
    by (simp add: bp power_int_diff)
  have xt: "binary64 (b + b / 2) = b + b / 2"
    unfolding h3 using m3 by (rule binary64_exact)
  have br0: "0 \<le> b * r" using b0 r by simp
  have br1: "b * r \<le> b" using b0 r mult_left_mono [of r 1 b] by simp
  have i0: "0 \<le> binary64 (b * r)" using br0 by (rule binary64_nonneg)
  have "binary64 (b * r) \<le> binary64 b" using br1 by (rule binary64_mono)
  then have i1: "binary64 (b * r) \<le> b" by (simp only: xb)
  have "0 \<le> binary64 (b * r) * (1 / 2)" using i0 by simp
  then have j0: "0 \<le> j" unfolding j_def by (rule binary64_nonneg)
  have "binary64 (b * r) * (1 / 2) \<le> b / 2" using i1 by simp
  then have "j \<le> binary64 (b / 2)" unfolding j_def by (rule binary64_mono)
  then have j1: "j \<le> b / 2" by (simp only: xh)
  have "b \<le> b + j" using j0 by simp
  then have "binary64 b \<le> binary64 (b + j)" by (rule binary64_mono)
  then have lo: "b \<le> binary64 (b + j)" by (simp only: xb)
  have "b + j \<le> b + b / 2" using j1 by simp
  then have "binary64 (b + j) \<le> binary64 (b + b / 2)" by (rule binary64_mono)
  then have "binary64 (b + j) \<le> b + b / 2" by (simp only: xt)
  then have hi: "2 * binary64 (b + j) \<le> 3 * b" by simp
  from lo hi show ?thesis by (simp only: b_def j_def)
qed

lemma Orchestrator_calculateBackoff_bounds:
  assumes k: "1 \<le> k" and m: "0 \<le> BaseBackoff g" "BaseBackoff g < 2 ^ 51"
    and x: "0 \<le> MaxBackoff g" "MaxBackoff g < 2 ^ 53" and r: "0 \<le> r" "r < 1"
  shows "min (BaseBackoff g * 2 ^ nat (k - 1)) (MaxBackoff g) \<le> Orchestrator_calculateBackoff g k r
       \<and> Orchestrator_calculateBackoff g k r \<le> MaxBackoff g
       \<and> 2 * Orchestrator_calculateBackoff g k r \<le> 3 * (BaseBackoff g * 2 ^ nat (k - 1))"
proof -
  define bi where "bi = BaseBackoff g * 2 ^ nat (k - 1)"
  define t where "t = binary64 (of_int bi + binary64 (binary64 (of_int bi * r) * (1 / 2)))"
  have bi0: "0 \<le> bi" using m(1) by (simp add: bi_def)
  from total_bounds [OF k m r] have t: "of_int bi \<le> t" "2 * t \<le> 3 * of_int bi"
    by (simp_all only: bi_def t_def)
  have e: "Orchestrator_calculateBackoff g k r = toDuration (min t (of_int (MaxBackoff g)))"
    unfolding t_def bi_def using k m x by (intro Orchestrator_calculateBackoff_eq) simp_all
  have t0: "0 \<le> min t (of_int (MaxBackoff g))" using t(1) bi0 x(1) by simp
  then have f: "Orchestrator_calculateBackoff g k r = \<lfloor>min t (of_int (MaxBackoff g))\<rfloor>"
    by (simp add: e toDuration_def)
  have "(of_int (min bi (MaxBackoff g)) :: rat) \<le> min t (of_int (MaxBackoff g))"
    using t(1) by (simp add: of_int_min min_le_iff_disj)
  then have lo: "min bi (MaxBackoff g) \<le> Orchestrator_calculateBackoff g k r"
    unfolding f by (simp only: le_floor_iff)
  have fl: "of_int (Orchestrator_calculateBackoff g k r) \<le> min t (of_int (MaxBackoff g))"
    unfolding f by (rule of_int_floor_le)
  then have "(of_int (Orchestrator_calculateBackoff g k r) :: rat) \<le> of_int (MaxBackoff g)"
    by simp
  then have hi1: "Orchestrator_calculateBackoff g k r \<le> MaxBackoff g"
    by (simp only: of_int_le_iff)
  have "of_int (Orchestrator_calculateBackoff g k r) \<le> t" using fl by simp
  with t(2) have "(of_int (2 * Orchestrator_calculateBackoff g k r) :: rat) \<le> of_int (3 * bi)"
    by simp
  then have hi2: "2 * Orchestrator_calculateBackoff g k r \<le> 3 * bi"
    by (simp only: of_int_le_iff)
  from lo hi1 hi2 show ?thesis by (simp only: bi_def)
qed

lemma backoff_double_precision_examples:
  "calculateBackoff defaultRetryConfig 4 (2144 / 4096) = 8074"
  "calculateBackoff defaultRetryConfig 1 (1 - 1 / 2 ^ 52) = 1200"
  "jitter (1 - 1 / 2 ^ 52) = binary64 (12 / 10)"
  "jitter 0 = binary64 (8 / 10)"
  "jitter (1 / 2) = 1"
  "Orchestrator_calculateBackoff
     \<lparr>MaxRetries = 5, BaseBackoff = 2000000000, MaxBackoff = 60000000000\<rparr> 5
     (5625168810886943 / 18014398509481984) = 36996153545"
  by code_simp+

text \<open>
  C4 (as stated): for every k \<ge> 1 the backoff before the k-th same-provider retry equals
  min(baseDelay * 2^(k-1), maxDelay) multiplied by a jitter factor in [0.8, 1.2].
  ProviderClient.calculateBackoff returns the floor of that product, which can lie below
  every such product: with baseDelay 1001 and the random number 0 the capped wait
  is 1001 and the backoff is 800, less than 0.8 * 1001. Orchestrator.calculateBackoff
  adds a jitter of 0 to 50 percent instead: with base 1000 and the random number 1/2 the
  first backoff is 1250, more than 1.2 * 1000.
\<close>

theorem backoff_not_product_counterexample:
  "cappedWait \<lparr>maxAttempts = 5, baseDelay = 1001, maxDelay = 10000\<rparr> 1 = 1001
   \<and> calculateBackoff \<lparr>maxAttempts = 5, baseDelay = 1001, maxDelay = 10000\<rparr> 1 0 = 800
   \<and> of_int (calculateBackoff \<lparr>maxAttempts = 5, baseDelay = 1001, maxDelay = 10000\<rparr> 1 0)
       < (8 / 10) * cappedWait \<lparr>maxAttempts = 5, baseDelay = 1001, maxDelay = 10000\<rparr> 1
   \<and> Orchestrator_calculateBackoff \<lparr>MaxRetries = 3, BaseBackoff = 1000, MaxBackoff = 10000\<rparr> 1 (1 / 2)
       = 1250
   \<and> (of_int (Orchestrator_calculateBackoff
                 \<lparr>MaxRetries = 3, BaseBackoff = 1000, MaxBackoff = 10000\<rparr> 1 (1 / 2)) :: rat)
       > (12 / 10) * of_int (min (1000 * 2 ^ nat (1 - 1)) 10000)"
proof -
  have w: "cappedWait \<lparr>maxAttempts = 5, baseDelay = 1001, maxDelay = 10000\<rparr> 1 = 1001"
    by code_simp
  have b: "calculateBackoff \<lparr>maxAttempts = 5, baseDelay = 1001, maxDelay = 10000\<rparr> 1 0 = 800"
    by code_simp
  have g: "Orchestrator_calculateBackoff \<lparr>MaxRetries = 3, BaseBackoff = 1000, MaxBackoff = 10000\<rparr>
             1 (1 / 2) = 1250"
    by code_simp
  show ?thesis by (simp add: w b g)
qed

text \<open>
  C4 (amended): for every k from 1 to 970, every random number r in [0, 1) and delays that
  are integers from 0 to below 2^51 (bounds within which no intermediate value leaves the
  finite doubles), the pre-jitter wait of ProviderClient.calculateBackoff is exactly
  min(baseDelay * 2^(k-1), maxDelay), and the function returns the floor of the
  double-precision product of that wait and the jitter factor j, where j is
  1.0 + (r * 0.4 - 0.2) computed in double precision: j lies between the doubles nearest
  to 0.8 and to 1.2 (both can be reached), and differs from 0.8 + 0.4 r by at most 2^-51.
  So the backoff is an integer between the floor of 0.8 * wait and the ceiling of
  1.2 * wait. With base 1000 and maxDelay 10000 the waits before the jitter of the retries
  1 to 4 are exactly 1000, 2000, 4000 and 8000 ms. Orchestrator.calculateBackoff adds its
  jitter instead, and caps afterwards: with b = BaseBackoff * 2^(k-1) it returns
  min(b + (b * r) * 0.5, MaxBackoff), computed in double precision and truncated to an
  integer, a value from min(b, MaxBackoff) to min(1.5 * b, MaxBackoff). How r is
  distributed is outside the model.
\<close>

theorem calculateBackoff_jitter:
  assumes "1 \<le> k" and "k \<le> 970" and "0 \<le> r" and "r < 1"
    and "0 \<le> baseDelay rc" and "baseDelay rc < 2 ^ 51"
    and "0 \<le> maxDelay rc" and "maxDelay rc < 2 ^ 51"
    and "0 \<le> BaseBackoff g" and "BaseBackoff g < 2 ^ 51"
    and "0 \<le> MaxBackoff g" and "MaxBackoff g < 2 ^ 51"
  shows "cappedWait rc k = of_int (min (baseDelay rc * 2 ^ nat (k - 1)) (maxDelay rc))
   \<and> jitter r = binary64 (1 + binary64 (binary64 (r * binary64 (4 / 10)) - binary64 (2 / 10)))
   \<and> calculateBackoff rc k r = \<lfloor>binary64 (cappedWait rc k * jitter r)\<rfloor>
   \<and> binary64 (8 / 10) \<le> jitter r \<and> jitter r \<le> binary64 (12 / 10)
   \<and> \<bar>jitter r - (8 / 10 + r * (4 / 10))\<bar> \<le> 1 / 2 ^ 51
   \<and> \<lfloor>(8 / 10) * cappedWait rc k\<rfloor> \<le> calculateBackoff rc k r
   \<and> calculateBackoff rc k r \<le> \<lceil>(12 / 10) * cappedWait rc k\<rceil>
   \<and> map (cappedWait \<lparr>maxAttempts = 5, baseDelay = 1000, maxDelay = 10000\<rparr>) [1, 2, 3, 4]
       = [1000, 2000, 4000, 8000]
   \<and> Orchestrator_calculateBackoff g k r
       = toDuration
           (min (binary64 (of_int (BaseBackoff g * 2 ^ nat (k - 1))
                           + binary64 (binary64 (of_int (BaseBackoff g * 2 ^ nat (k - 1)) * r)
                                       * (1 / 2))))
                (of_int (MaxBackoff g)))
   \<and> min (BaseBackoff g * 2 ^ nat (k - 1)) (MaxBackoff g) \<le> Orchestrator_calculateBackoff g k r
   \<and> Orchestrator_calculateBackoff g k r \<le> MaxBackoff g
   \<and> 2 * Orchestrator_calculateBackoff g k r \<le> 3 * (BaseBackoff g * 2 ^ nat (k - 1))"
proof -
  define w where "w = min (baseDelay rc * 2 ^ nat (k - 1)) (maxDelay rc)"
  have w: "0 \<le> w" "w < 2 ^ 51"
    using assms(5,7,8) by (simp_all add: w_def min_less_iff_disj)
  have cw: "cappedWait rc k = of_int w"
    unfolding w_def using assms(1,5-8) by (intro cappedWait_exact) simp_all
  have jd: "jitter r = binary64 (1 + binary64 (binary64 (r * binary64 (4 / 10)) - binary64 (2 / 10)))"
    by (rule jitter_def)
  have cb: "calculateBackoff rc k r = \<lfloor>binary64 (cappedWait rc k * jitter r)\<rfloor>"
    by (simp add: calculateBackoff_def)
  from jitter_bounds [OF assms(3,4)]
  have jb1: "binary64 (8 / 10) \<le> jitter r" and jb2: "jitter r \<le> binary64 (12 / 10)"
    by blast+
  have je: "\<bar>jitter r - (8 / 10 + r * (4 / 10))\<bar> \<le> 1 / 2 ^ 51"
    using assms(3,4) by (rule jitter_error)
  from backoff_bounds [OF w assms(3,4)]
  have bb1: "\<lfloor>(8 / 10) * cappedWait rc k\<rfloor> \<le> calculateBackoff rc k r"
    and bb2: "calculateBackoff rc k r \<le> \<lceil>(12 / 10) * cappedWait rc k\<rceil>"
    unfolding cb cw by blast+
  have sc: "map (cappedWait \<lparr>maxAttempts = 5, baseDelay = 1000, maxDelay = 10000\<rparr>) [1, 2, 3, 4]
       = [1000, 2000, 4000, 8000]"
    by code_simp
  have go: "Orchestrator_calculateBackoff g k r
       = toDuration
           (min (binary64 (of_int (BaseBackoff g * 2 ^ nat (k - 1))
                           + binary64 (binary64 (of_int (BaseBackoff g * 2 ^ nat (k - 1)) * r)
                                       * (1 / 2))))
                (of_int (MaxBackoff g)))"
    using assms(1,9-12) by (intro Orchestrator_calculateBackoff_eq) simp_all
  have "MaxBackoff g < 2 ^ 53" using assms(12) by simp
  from Orchestrator_calculateBackoff_bounds [OF assms(1,9,10,11) this assms(3,4)]
  have gb1: "min (BaseBackoff g * 2 ^ nat (k - 1)) (MaxBackoff g) \<le> Orchestrator_calculateBackoff g k r"
    and gb2: "Orchestrator_calculateBackoff g k r \<le> MaxBackoff g"
    and gb3: "2 * Orchestrator_calculateBackoff g k r \<le> 3 * (BaseBackoff g * 2 ^ nat (k - 1))"
    by blast+
  show ?thesis
    unfolding w_def [symmetric]
    using cw jd cb jb1 jb2 je bb1 bb2 sc go gb1 gb2 gb3 by blast
qed

theorem calculateBackoff_jitter_witness:
  "(1::int) \<le> 3 \<and> (3::int) \<le> 970 \<and> (0::rat) \<le> 1 / 4 \<and> (1 / 4 :: rat) < 1
   \<and> 0 \<le> baseDelay defaultRetryConfig \<and> baseDelay defaultRetryConfig < 2 ^ 51
   \<and> 0 \<le> maxDelay defaultRetryConfig \<and> maxDelay defaultRetryConfig < 2 ^ 51
   \<and> 0 \<le> BaseBackoff \<lparr>MaxRetries = 3, BaseBackoff = 1000, MaxBackoff = 10000\<rparr>
   \<and> BaseBackoff \<lparr>MaxRetries = 3, BaseBackoff = 1000, MaxBackoff = 10000\<rparr> < 2 ^ 51
   \<and> 0 \<le> MaxBackoff \<lparr>MaxRetries = 3, BaseBackoff = 1000, MaxBackoff = 10000\<rparr>
   \<and> MaxBackoff \<lparr>MaxRetries = 3, BaseBackoff = 1000, MaxBackoff = 10000\<rparr> < 2 ^ 51
   \<and> cappedWait defaultRetryConfig 3 = 4000
   \<and> 3200 \<le> calculateBackoff defaultRetryConfig 3 (1 / 4)
   \<and> calculateBackoff defaultRetryConfig 3 (1 / 4) \<le> 4800
   \<and> calculateBackoff defaultRetryConfig 3 (1 / 4) = 3600
   \<and> 4000 \<le> Orchestrator_calculateBackoff
               \<lparr>MaxRetries = 3, BaseBackoff = 1000, MaxBackoff = 10000\<rparr> 3 (1 / 4)
   \<and> Orchestrator_calculateBackoff
         \<lparr>MaxRetries = 3, BaseBackoff = 1000, MaxBackoff = 10000\<rparr> 3 (1 / 4) \<le> 6000
   \<and> Orchestrator_calculateBackoff
         \<lparr>MaxRetries = 3, BaseBackoff = 1000, MaxBackoff = 10000\<rparr> 3 (1 / 4) = 4500"
proof -
  let ?g = "\<lparr>MaxRetries = 3, BaseBackoff = 1000, MaxBackoff = 10000\<rparr>"
  have h: "(1::int) \<le> 3" "(3::int) \<le> 970" "(0::rat) \<le> 1 / 4" "(1 / 4 :: rat) < 1"
    "0 \<le> baseDelay defaultRetryConfig" "baseDelay defaultRetryConfig < 2 ^ 51"
    "0 \<le> maxDelay defaultRetryConfig" "maxDelay defaultRetryConfig < 2 ^ 51"
    "0 \<le> BaseBackoff ?g" "BaseBackoff ?g < 2 ^ 51" "0 \<le> MaxBackoff ?g" "MaxBackoff ?g < 2 ^ 51"
    by (simp_all add: defaultRetryConfig_def)
  note t = calculateBackoff_jitter [OF h]
  from t have w: "cappedWait defaultRetryConfig 3 = 4000"
    by (simp add: defaultRetryConfig_def)
  from t have "\<lfloor>(8 / 10) * cappedWait defaultRetryConfig 3\<rfloor>
                 \<le> calculateBackoff defaultRetryConfig 3 (1 / 4)"
    and "calculateBackoff defaultRetryConfig 3 (1 / 4)
                 \<le> \<lceil>(12 / 10) * cappedWait defaultRetryConfig 3\<rceil>"
    by blast+
  then have b: "3200 \<le> calculateBackoff defaultRetryConfig 3 (1 / 4)"
    "calculateBackoff defaultRetryConfig 3 (1 / 4) \<le> 4800"
    by (simp_all add: w)
  from t have "min (BaseBackoff ?g * 2 ^ nat (3 - 1)) (MaxBackoff ?g)
                 \<le> Orchestrator_calculateBackoff ?g 3 (1 / 4)"
    and "2 * Orchestrator_calculateBackoff ?g 3 (1 / 4) \<le> 3 * (BaseBackoff ?g * 2 ^ nat (3 - 1))"
    by blast+
  then have g: "4000 \<le> Orchestrator_calculateBackoff ?g 3 (1 / 4)"
    "Orchestrator_calculateBackoff ?g 3 (1 / 4) \<le> 6000"
    by simp_all
  have e: "calculateBackoff defaultRetryConfig 3 (1 / 4) = 3600"
    "Orchestrator_calculateBackoff ?g 3 (1 / 4) = 4500"
    by code_simp+
  from h w b g e show ?thesis by simp
qed

section \<open>The log of a run\<close>

lemma setCircuit_names [simp]: "map name (setCircuit i c ps) = map name ps"
proof (cases "i < length ps")
  case True
  then show ?thesis by (simp add: setCircuit_def map_update list_update_same_conv)
next
  case False
  then show ?thesis by (simp add: setCircuit_def not_less list_update_beyond)
qed

lemma getHealthyProvider_names [simp]: "map name (snd (getHealthyProvider now ps)) = map name ps"
  by (induction ps) (auto simp: past_def split: prod.splits)

lemma afterCurrent_names [simp]: "map name (snd (afterCurrent now cur f ps)) = map name ps"
  by (induction ps arbitrary: f) (auto simp: past_def split: prod.splits)

lemma beforeCurrent_names [simp]: "map name (snd (beforeCurrent now cur ps)) = map name ps"
  by (induction ps) (auto simp: past_def split: prod.splits)

lemma getNextProvider_names [simp]: "map name (snd (getNextProvider now cur ps)) = map name ps"
proof -
  have "map name (snd (afterCurrent now cur False ps)) = map name ps" by simp
  then show ?thesis
    by (cases "afterCurrent now cur False ps")
       (auto simp: getNextProvider_def split: option.splits)
qed

lemma getHealthyProvider_index:
  "fst (getHealthyProvider now ps) = Some j \<Longrightarrow> j < length (snd (getHealthyProvider now ps))"
  by (induction ps arbitrary: j) (auto simp: past_def split: prod.splits if_splits)

lemma afterCurrent_index:
  "fst (afterCurrent now cur f ps) = Some j \<Longrightarrow>
   j < length (snd (afterCurrent now cur f ps)) \<and> name (snd (afterCurrent now cur f ps) ! j) \<noteq> cur"
  by (induction ps arbitrary: j f) (auto simp: past_def split: prod.splits if_splits)

lemma beforeCurrent_index:
  "fst (beforeCurrent now cur ps) = Some j \<Longrightarrow>
   j < length (snd (beforeCurrent now cur ps)) \<and> name (snd (beforeCurrent now cur ps) ! j) \<noteq> cur"
  by (induction ps arbitrary: j) (auto simp: past_def split: prod.splits if_splits)

lemma getNextProvider_index:
  "fst (getNextProvider now cur ps) = Some j \<Longrightarrow>
   j < length (snd (getNextProvider now cur ps)) \<and> name (snd (getNextProvider now cur ps) ! j) \<noteq> cur"
  using afterCurrent_index [of now cur False ps j]
        beforeCurrent_index [of now cur "snd (afterCurrent now cur False ps)" j]
  by (cases "afterCurrent now cur False ps")
     (auto simp: getNextProvider_def split: option.splits)


lemma canExecute_closed: "canExecute now c = (True, c') \<Longrightarrow> cb_state c' = CLOSED"
  by (auto simp: canExecute_def Let_def split: if_splits)

lemma afterCurrent_closed:
  "fst (afterCurrent now cur f ps) = Some j \<Longrightarrow>
   cb_state (circuit (snd (afterCurrent now cur f ps) ! j)) = CLOSED"
  by (induction ps arbitrary: j f)
     (auto simp: past_def canExecute_closed split: prod.splits if_splits)

lemma beforeCurrent_closed:
  "fst (beforeCurrent now cur ps) = Some j \<Longrightarrow>
   cb_state (circuit (snd (beforeCurrent now cur ps) ! j)) = CLOSED"
  by (induction ps arbitrary: j)
     (auto simp: past_def canExecute_closed split: prod.splits if_splits)

lemma getNextProvider_closed:
  "fst (getNextProvider now cur ps) = Some j \<Longrightarrow>
   cb_state (circuit (snd (getNextProvider now cur ps) ! j)) = CLOSED"
  using afterCurrent_closed [of now cur False ps j]
        beforeCurrent_closed [of now cur "snd (afterCurrent now cur False ps)" j]
  by (cases "afterCurrent now cur False ps")
     (auto simp: getNextProvider_def split: option.splits)

lemma name_nth_eq:
  "map name ps' = map name ps \<Longrightarrow> i < length ps \<Longrightarrow> name (ps' ! i) = name (ps ! i)"
  by (metis length_map nth_map)

lemma setCircuit_length [simp]: "length (setCircuit i c ps) = length ps"
  by (simp add: setCircuit_def)

lemma retry_trace:
  "callWithRetryLoop rc i k script w = (res, s', w') \<Longrightarrow> i < length (providers w) \<Longrightarrow>
   \<exists>es. events w' = events w @ es
      \<and> map name (providers w') = map name (providers w)
      \<and> list_all isAction es
      \<and> successively afterRateLimit es
      \<and> (es \<noteq> [] \<longrightarrow>
           (\<exists>out. hd es = EvAttempt (name (providers w ! i)) k (isOpen (circuit (providers w ! i))) out))
      \<and> (\<forall>e. res = Threw e \<longrightarrow> isFailover e \<longrightarrow>
            es \<noteq> [] \<and> (\<exists>k' opn. last es = EvAttempt (name (providers w ! i)) k' opn (Failed e)))"
proof (induction script arbitrary: k w)
  case Nil
  then show ?case by (auto simp: isFailover_def split: if_splits)
next
  case (Cons reply script)
  let ?p = "providers w ! i"
  show ?case
  proof (cases "k \<le> maxAttempts rc")
    case False
    with Cons.prems show ?thesis by (auto simp: isFailover_def)
  next
    case inrange: True
    show ?thesis
    proof (cases "doRequest (raw reply)")
      case (Inr c)
      with inrange Cons.prems show ?thesis
        by (auto simp: Let_def logEvent_def sleep_def)
    next
      case (Inl e)
      let ?a = "EvAttempt (name ?p) k (isOpen (circuit ?p)) (Failed e)"
      let ?w2 = "logEvent ?a
                  ((sleep (latency reply) w)\<lparr>providers :=
                     setCircuit i (recordFailure (clock (sleep (latency reply) w)) (circuit ?p))
                       (providers (sleep (latency reply) w))\<rparr>)"
      have ev2: "events ?w2 = events w @ [?a]"
        by (simp add: logEvent_def sleep_def)
      have nm2: "map name (providers ?w2) = map name (providers w)"
        by (simp add: logEvent_def sleep_def)
      have len2: "i < length (providers ?w2)"
        using Cons.prems(2) by (simp add: logEvent_def sleep_def)
      have nmi2: "name (providers ?w2 ! i) = name ?p"
        using nm2 Cons.prems(2) by (rule name_nth_eq)
      consider (stop) "isFailover e \<or> notRetryable e"
        | (wait) "\<not> isFailover e" "\<not> notRetryable e" "k < maxAttempts rc"
        | (last) "\<not> isFailover e" "\<not> notRetryable e" "\<not> k < maxAttempts rc"
        by blast
      then show ?thesis
      proof cases
        case stop
        with inrange Inl Cons.prems(1) have "res = Threw e" "w' = ?w2"
          by (auto simp: Let_def split: if_splits)
        with ev2 nm2 show ?thesis by auto
      next
        case wait
        let ?wt = "calculateBackoff rc k (rnd reply)"
        let ?w3 = "sleep ?wt (logEvent (EvBackoff ?wt) ?w2)"
        from wait inrange Inl Cons.prems(1)
        have rec: "callWithRetryLoop rc i (k + 1) script ?w3 = (res, s', w')"
          by (simp add: Let_def)
        have ev3: "events ?w3 = events w @ [?a, EvBackoff ?wt]"
          using ev2 by (simp add: logEvent_def sleep_def)
        have nm3: "map name (providers ?w3) = map name (providers w)"
          using nm2 by (simp add: logEvent_def sleep_def)
        have len3: "i < length (providers ?w3)"
          using len2 by (simp add: logEvent_def sleep_def)
        have nmi3: "name (providers ?w3 ! i) = name ?p"
          using nm3 Cons.prems(2) by (rule name_nth_eq)
        from Cons.IH [OF rec len3] obtain es where es:
          "events w' = events ?w3 @ es"
          "map name (providers w') = map name (providers ?w3)"
          "list_all isAction es" "successively afterRateLimit es"
          "es \<noteq> [] \<longrightarrow> (\<exists>opn out. hd es = EvAttempt (name (providers ?w3 ! i)) (k + 1) opn out)"
          "\<forall>e. res = Threw e \<longrightarrow> isFailover e \<longrightarrow>
             es \<noteq> [] \<and> (\<exists>k' opn. last es = EvAttempt (name (providers ?w3 ! i)) k' opn (Failed e))"
          by blast
        have "events w' = events w @ (?a # EvBackoff ?wt # es)"
          using es(1) ev3 by simp
        moreover have "map name (providers w') = map name (providers w)"
          using es(2) nm3 by simp
        moreover have "list_all isAction (?a # EvBackoff ?wt # es)"
          using es(3) by simp
        moreover have "successively afterRateLimit (?a # EvBackoff ?wt # es)"
          using es(4) wait(1) by (cases es) (simp_all add: successively_Cons)
        moreover have "\<forall>e'. res = Threw e' \<longrightarrow> isFailover e' \<longrightarrow>
             (\<exists>k' opn. last (?a # EvBackoff ?wt # es) = EvAttempt (name ?p) k' opn (Failed e'))"
          using es(6) nmi3 by auto
        ultimately show ?thesis
          by (intro exI [of _ "?a # EvBackoff ?wt # es"]) auto
      next
        case last
        from last inrange Inl Cons.prems(1)
        have rec: "callWithRetryLoop rc i (k + 1) script ?w2 = (res, s', w')"
          by (simp add: Let_def)
        from Cons.IH [OF rec len2] obtain es where es:
          "events w' = events ?w2 @ es"
          "map name (providers w') = map name (providers ?w2)"
          "list_all isAction es" "successively afterRateLimit es"
          "es \<noteq> [] \<longrightarrow> (\<exists>opn out. hd es = EvAttempt (name (providers ?w2 ! i)) (k + 1) opn out)"
          "\<forall>e. res = Threw e \<longrightarrow> isFailover e \<longrightarrow>
             es \<noteq> [] \<and> (\<exists>k' opn. last es = EvAttempt (name (providers ?w2 ! i)) k' opn (Failed e))"
          by blast
        have "events w' = events w @ (?a # es)"
          using es(1) ev2 by simp
        moreover have "map name (providers w') = map name (providers w)"
          using es(2) nm2 by simp
        moreover have "list_all isAction (?a # es)"
          using es(3) by simp
        moreover have "successively afterRateLimit (?a # es)"
        proof (cases es)
          case Nil
          then show ?thesis by simp
        next
          case (Cons x xs)
          with es(5) obtain opn out where "x = EvAttempt (name (providers ?w2 ! i)) (k + 1) opn out"
            by auto
          with Cons es(4) last(1) show ?thesis by simp
        qed
        moreover have "\<forall>e'. res = Threw e' \<longrightarrow> isFailover e' \<longrightarrow>
             (\<exists>k' opn. last (?a # es) = EvAttempt (name ?p) k' opn (Failed e'))"
          using es(6) nmi2 by auto
        ultimately show ?thesis
          by (intro exI [of _ "?a # es"]) auto
      qed
    qed
  qed
qed


lemma call_trace:
  "callLoop rc i t script w = (res, s', w') \<Longrightarrow> i < length (providers w) \<Longrightarrow>
   \<exists>es. events w' = events w @ es
      \<and> successively afterRateLimit (filter isAction es)
      \<and> (filter isAction es \<noteq> [] \<longrightarrow>
           (\<exists>out. hd (filter isAction es)
                   = EvAttempt (name (providers w ! i)) 1 (isOpen (circuit (providers w ! i))) out))"
proof (induction rc i t script w arbitrary: res s' w' rule: callLoop.induct)
  case (1 rc i t script w)
  let ?w0 = "logEvent (EvSelected (name (providers w ! i))) w"
  obtain r1 s1 w1 where cr: "callWithRetry rc i script ?w0 = (r1, s1, w1)"
    by (cases "callWithRetry rc i script ?w0") auto
  have len0: "i < length (providers ?w0)"
    using "1.prems"(2) by (simp add: logEvent_def)
  from retry_trace [OF cr [unfolded callWithRetry_def] len0] obtain es1 where es1:
    "events w1 = events ?w0 @ es1"
    "map name (providers w1) = map name (providers ?w0)"
    "list_all isAction es1" "successively afterRateLimit es1"
    "es1 \<noteq> [] \<longrightarrow>
       (\<exists>out. hd es1 = EvAttempt (name (providers ?w0 ! i)) 1 (isOpen (circuit (providers ?w0 ! i))) out)"
    "\<forall>e. r1 = Threw e \<longrightarrow> isFailover e \<longrightarrow>
       es1 \<noteq> [] \<and> (\<exists>k' opn. last es1 = EvAttempt (name (providers ?w0 ! i)) k' opn (Failed e))"
    by blast
  have p0: "providers ?w0 = providers w" by (simp add: logEvent_def)
  have ev1: "events w1 = events w @ EvSelected (name (providers w ! i)) # es1"
    using es1(1) by (simp add: logEvent_def)
  have f1: "filter isAction es1 = es1"
    using es1(3) by (simp add: list_all_iff)
  have nm1: "name (providers w1 ! i) = name (providers w ! i)"
    using es1(2) "1.prems"(2) unfolding p0 by (rule name_nth_eq)
  have len1: "length (providers w1) = length (providers w)"
    using es1(2) unfolding p0 by (metis length_map)
  show ?case
  proof (cases "\<exists>e. r1 = Threw e \<and> isFailover e
                  \<and> fst (getNextProvider (clock w1) (name (providers w1 ! i)) (providers w1)) \<noteq> None")
    case False
    then have "w' = w1 \<or> (\<exists>ev. w' = logEvent (EvFailover (name (providers w1 ! i)) None)
                       (w1\<lparr>providers := snd (getNextProvider (clock w1) (name (providers w1 ! i)) (providers w1))\<rparr>))"
      using "1.prems"(1) cr
      by (subst (asm) callLoop.simps) (auto split: CallResult.splits if_splits prod.splits option.splits)
    then consider "events w' = events w1" | "events w' = events w1 @ [EvFailover (name (providers w1 ! i)) None]"
      by (auto simp: logEvent_def)
    then show ?thesis
    proof cases
      case 1
      then show ?thesis using ev1 es1(4,5) f1 p0
        by (intro exI [of _ "EvSelected (name (providers w ! i)) # es1"]) auto
    next
      case 2
      then show ?thesis using ev1 es1(4,5) f1 p0
        by (intro exI [of _ "EvSelected (name (providers w ! i)) # es1 @ [EvFailover (name (providers w1 ! i)) None]"]) auto
    qed
  next
    case True
    then obtain e j where e: "r1 = Threw e" "isFailover e"
      and j: "fst (getNextProvider (clock w1) (name (providers w1 ! i)) (providers w1)) = Some j"
      by auto
    obtain ps2 where gn:
      "getNextProvider (clock w1) (name (providers w1 ! i)) (providers w1) = (Some j, ps2)"
      using j by (cases "getNextProvider (clock w1) (name (providers w1 ! i)) (providers w1)") auto
    let ?ps = ps2
    let ?f = "EvFailover (name (providers w1 ! i)) (Some (name (?ps ! j)))"
    let ?w2 = "logEvent ?f (w1\<lparr>providers := ?ps\<rparr>)"
    have rec: "callLoop rc j (t + maxAttempts rc) s1 ?w2 = (res, s', w')"
      using "1.prems"(1) cr e gn by (subst (asm) callLoop.simps) simp
    from getNextProvider_index [OF j]
    have jlen: "j < length ?ps" and jname: "name (?ps ! j) \<noteq> name (providers w1 ! i)"
      by (auto simp: gn)
    have jclosed: "cb_state (circuit (?ps ! j)) = CLOSED"
      using getNextProvider_closed [OF j] by (simp add: gn)
    have len2: "j < length (providers ?w2)"
      using jlen by (simp add: logEvent_def)
    from "1.IH" [OF cr [symmetric] e(1) refl e(2) gn [symmetric] refl rec len2]
    obtain es2 where es2:
      "events w' = events ?w2 @ es2"
      "successively afterRateLimit (filter isAction es2)"
      "filter isAction es2 \<noteq> [] \<longrightarrow>
         (\<exists>out. hd (filter isAction es2)
                 = EvAttempt (name (providers ?w2 ! j)) 1 (isOpen (circuit (providers ?w2 ! j))) out)"
      by blast
    from es1(6) e p0 nm1 obtain k' opn where lst:
      "es1 \<noteq> []" "last es1 = EvAttempt (name (providers w ! i)) k' opn (Failed e)"
      by auto
    let ?es = "EvSelected (name (providers w ! i)) # es1 @ ?f # es2"
    have "events w' = events w @ ?es"
      using es2(1) ev1 by (simp add: logEvent_def)
    moreover have fl: "filter isAction ?es = es1 @ filter isAction es2"
      using f1 by simp
    moreover have "successively afterRateLimit (es1 @ filter isAction es2)"
    proof (cases "filter isAction es2")
      case Nil
      then show ?thesis using es1(4) by simp
    next
      case (Cons x xs)
      with es2(3) obtain out where x: "x = EvAttempt (name (?ps ! j)) 1 (isOpen (circuit (?ps ! j))) out"
        by (auto simp: logEvent_def)
      have "afterRateLimit (last es1) x"
        using lst(2) x e(2) jname nm1 jclosed by (simp add: isOpen_def)
      with Cons es1(4) es2(2) lst(1) show ?thesis
        by (simp add: successively_append_iff)
    qed
    moreover have "hd (es1 @ filter isAction es2) = hd es1"
      using lst(1) by simp
    ultimately show ?thesis
      using es1(5) lst(1) p0
      by (intro exI [of _ ?es]) auto
  qed
qed


section \<open>Selecting the next provider\<close>

lemma find_append_eq:
  "find P (xs @ ys) = (case find P xs of Some x \<Rightarrow> Some x | None \<Rightarrow> find P ys)"
  by (induction xs) auto

lemma nth_past: "map_option ((!) (p # ps)) (fst (past q r)) = map_option ((!) ps) (fst r)"
  by (cases "fst r") (simp_all add: past_def)

lemma afterCurrent_found_picks:
  "map_option ((!) ps) (fst (afterCurrent now cur True ps))
   = find (\<lambda>p. name p \<noteq> cur \<and> fst (canExecute now (circuit p))) ps"
  by (induction ps) (auto simp: nth_past split: prod.splits)

lemma afterCurrent_picks:
  "map_option ((!) ps) (fst (afterCurrent now cur False ps))
   = find (\<lambda>p. name p \<noteq> cur \<and> fst (canExecute now (circuit p)))
       (dropWhile (\<lambda>p. name p \<noteq> cur) ps)"
  by (induction ps) (auto simp: nth_past afterCurrent_found_picks split: prod.splits)

lemma canExecute_refused_unchanged: "canExecute now c = (False, c') \<Longrightarrow> c' = c"
  by (auto simp: canExecute_def Let_def split: if_splits)

lemma afterCurrent_none_unchanged:
  "fst (afterCurrent now cur f ps) = None \<Longrightarrow> snd (afterCurrent now cur f ps) = ps"
  by (induction ps arbitrary: f)
     (auto simp: past_def split: prod.splits if_splits dest: canExecute_refused_unchanged)

lemma beforeCurrent_picks:
  "map_option ((!) ps) (fst (beforeCurrent now cur ps))
   = find (\<lambda>p. name p \<noteq> cur \<and> fst (canExecute now (circuit p)))
       (takeWhile (\<lambda>p. name p \<noteq> cur) ps)"
  by (induction ps) (auto simp: nth_past split: prod.splits)

lemma getNextProvider_picks:
  "map_option ((!) ps) (fst (getNextProvider now cur ps))
   = find (\<lambda>p. name p \<noteq> cur \<and> fst (canExecute now (circuit p)))
       (dropWhile (\<lambda>p. name p \<noteq> cur) ps @ takeWhile (\<lambda>p. name p \<noteq> cur) ps)"
proof (cases "fst (afterCurrent now cur False ps)")
  case None
  then have "snd (afterCurrent now cur False ps) = ps"
    by (rule afterCurrent_none_unchanged)
  with None have "afterCurrent now cur False ps = (None, ps)"
    by (metis prod.collapse)
  then show ?thesis
    using afterCurrent_picks [of ps now cur] beforeCurrent_picks [of ps now cur]
    by (simp add: getNextProvider_def find_append_eq)
next
  case (Some i)
  then obtain ps' where "afterCurrent now cur False ps = (Some i, ps')"
    by (cases "afterCurrent now cur False ps") auto
  then show ?thesis
    using afterCurrent_picks [of ps now cur]
    by (auto simp: getNextProvider_def find_append_eq split: option.splits)
qed

lemma getNextProvider_none_iff:
  "fst (getNextProvider now cur ps) = None
   \<longleftrightarrow> (\<forall>p \<in> set ps. name p \<noteq> cur \<longrightarrow> \<not> fst (canExecute now (circuit p)))"
proof -
  let ?Q = "\<lambda>p. name p \<noteq> cur \<and> fst (canExecute now (circuit p))"
  let ?rot = "dropWhile (\<lambda>p. name p \<noteq> cur) ps @ takeWhile (\<lambda>p. name p \<noteq> cur) ps"
  have s: "set ?rot = set ps"
    by (metis set_append sup_commute takeWhile_dropWhile_id)
  have "fst (getNextProvider now cur ps) = None \<longleftrightarrow> find ?Q ?rot = None"
    using getNextProvider_picks [of ps now cur, symmetric]
    by (cases "fst (getNextProvider now cur ps)") auto
  also have "\<dots> \<longleftrightarrow> \<not> (\<exists>p. p \<in> set ?rot \<and> ?Q p)"
    by (rule find_None_iff)
  also have "\<dots> \<longleftrightarrow> (\<forall>p \<in> set ps. name p \<noteq> cur \<longrightarrow> \<not> fst (canExecute now (circuit p)))"
    unfolding s by blast
  finally show ?thesis .
qed


lemma callLoop_no_next:
  assumes "fst (callWithRetry rc i script (logEvent (EvSelected (name (providers w ! i))) w)) = Threw e"
    and "isFailover e"
    and "fst (getNextProvider
            (clock (snd (snd (callWithRetry rc i script (logEvent (EvSelected (name (providers w ! i))) w)))))
            (name (providers (snd (snd (callWithRetry rc i script (logEvent (EvSelected (name (providers w ! i))) w)))) ! i))
            (providers (snd (snd (callWithRetry rc i script (logEvent (EvSelected (name (providers w ! i))) w)))))) = None"
  shows "fst (callLoop rc i t script w) = Threw (PlainError ''All attempts failed'')"
proof -
  obtain r1 s1 w1 where cr:
    "callWithRetry rc i script (logEvent (EvSelected (name (providers w ! i))) w) = (r1, s1, w1)"
    by (cases "callWithRetry rc i script (logEvent (EvSelected (name (providers w ! i))) w)") auto
  obtain ps' where "getNextProvider (clock w1) (name (providers w1 ! i)) (providers w1) = (None, ps')"
    using assms(3) cr by (cases "getNextProvider (clock w1) (name (providers w1 ! i)) (providers w1)") auto
  then show ?thesis
    using assms(1,2) cr by (subst callLoop.simps) simp
qed

lemma call_no_healthy:
  "fst (getHealthyProvider (clock w) (providers w)) = None
   \<Longrightarrow> fst (call rc script w) = Threw (PlainError ''No healthy providers available'')"
  by (cases "getHealthyProvider (clock w) (providers w)") (simp add: call_def)


text \<open>
  C2 (as stated): selectProvider never wraps around; once all providers eligible for
  the model have been excluded the Router returns none, rather than re-selecting an
  excluded or already-tried provider.
  getNextProvider does wrap around. With both circuits closed, a rate limit on openai
  moves the request to anthropic, and a rate limit on anthropic moves it back to openai,
  which this request has already tried. The Go SelectProvider, asked for attempt 3 after
  anthropic, returns openai, the provider of attempt 1; with a single provider for the
  model it returns that same provider again.
\<close>

theorem wraps_around_counterexample:
  "filter isAttempt (events (snd (snd (call defaultRetryConfig
       [replyOf (HttpResponse 429 None), replyOf (HttpResponse 429 None),
        replyOf (HttpResponse 200 (Some ''hi''))] freshWorld))))
     = [EvAttempt ''openai'' 1 False (Failed (PE rateLimitError)),
        EvAttempt ''anthropic'' 1 False (Failed (PE rateLimitError)),
        EvAttempt ''openai'' 1 False Succeeded]
   \<and> SelectProvider (NewProviderRouter [openaiConfig, anthropicConfig]) gptRequest 3 ''anthropic''
       = Inr ''openai''
   \<and> SelectProvider (NewProviderRouter [openaiConfig]) gptRequest 2 ''openai'' = Inr ''openai''"
  by code_simp

text \<open>
  C2 (amended): getNextProvider wraps around. It looks at the providers after the first
  one with the current name and then at those before it, and returns the first one of
  another name whose canExecute is true, whether or not the request has tried it
  before. It returns none exactly when no provider of another name can execute; call then
  ends the request with the error "All attempts failed", and with "No healthy providers
  available" when the first selection finds none. The Go SelectProvider never returns
  none for a model that has providers: on a retry it returns the first eligible
  provider other than the previous one, and the first eligible provider when there is
  no other.
\<close>

theorem getNextProvider_wraps_around:
  "map_option ((!) ps) (fst (getNextProvider now cur ps))
     = find (\<lambda>p. name p \<noteq> cur \<and> fst (canExecute now (circuit p)))
         (dropWhile (\<lambda>p. name p \<noteq> cur) ps @ takeWhile (\<lambda>p. name p \<noteq> cur) ps)
   \<and> (fst (getNextProvider now cur ps) = None
        \<longleftrightarrow> (\<forall>p \<in> set ps. name p \<noteq> cur \<longrightarrow> \<not> fst (canExecute now (circuit p))))
   \<and> (let r = callWithRetry rc i script (logEvent (EvSelected (name (providers w ! i))) w);
           w1 = snd (snd r)
       in (\<exists>e. fst r = Threw e \<and> isFailover e)
          \<and> fst (getNextProvider (clock w1) (name (providers w1 ! i)) (providers w1)) = None
          \<longrightarrow> fst (callLoop rc i t script w) = Threw (PlainError ''All attempts failed''))
   \<and> (fst (getHealthyProvider (clock w) (providers w)) = None
        \<longrightarrow> fst (call rc script w) = Threw (PlainError ''No healthy providers available''))
   \<and> (modelToProvider r (Model req) \<noteq> [] \<and> n \<noteq> 1
        \<longrightarrow> SelectProvider r req n prev
            = Inr (case find (\<lambda>p. p \<noteq> prev) (modelToProvider r (Model req)) of
                     Some p \<Rightarrow> p
                   | None \<Rightarrow> hd (modelToProvider r (Model req))))"
proof -
  have go: "modelToProvider r (Model req) \<noteq> [] \<and> n \<noteq> 1
        \<longrightarrow> SelectProvider r req n prev
            = Inr (case find (\<lambda>p. p \<noteq> prev) (modelToProvider r (Model req)) of
                     Some p \<Rightarrow> p
                   | None \<Rightarrow> hd (modelToProvider r (Model req)))"
    by (auto simp: SelectProvider_def Let_def split: option.splits)
  show ?thesis
    using getNextProvider_picks [of ps now cur] getNextProvider_none_iff [of now cur ps]
          callLoop_no_next [of rc i script w _ t] call_no_healthy [of w rc script] go
    unfolding Let_def by blast
qed

theorem getNextProvider_wraps_around_witness:
  "map name (providers openaiDown) = [''openai'', ''anthropic'']
   \<and> fst (canExecute 110 (circuit (providers openaiDown ! 0))) = False
   \<and> fst (getNextProvider 110 ''anthropic'' (providers openaiDown)) = None
   \<and> fst (callWithRetry defaultRetryConfig 1 [replyOf (HttpResponse 429 None)]
            (logEvent (EvSelected (name (providers openaiDown ! 1))) openaiDown))
       = Threw (PE rateLimitError)
   \<and> isFailover (PE rateLimitError)
   \<and> fst (callLoop defaultRetryConfig 1 0 [replyOf (HttpResponse 429 None)] openaiDown)
       = Threw (PlainError ''All attempts failed'')
   \<and> modelToProvider (NewProviderRouter [openaiConfig]) (Model gptRequest) \<noteq> [] \<and> (2::int) \<noteq> 1
   \<and> SelectProvider (NewProviderRouter [openaiConfig]) gptRequest 2 ''openai'' = Inr ''openai''"
proof -
  have h1: "\<forall>p \<in> set (providers openaiDown). name p \<noteq> ''anthropic''
              \<longrightarrow> \<not> fst (canExecute 110 (circuit p))"
    by code_simp
  have h2: "fst (callWithRetry defaultRetryConfig 1 [replyOf (HttpResponse 429 None)]
            (logEvent (EvSelected (name (providers openaiDown ! 1))) openaiDown))
       = Threw (PE rateLimitError)"
    by code_simp
  have h3: "isFailover (PE rateLimitError)"
    by (simp add: isFailover_def rateLimitError_def)
  have h4: "fst (getNextProvider
      (clock (snd (snd (callWithRetry defaultRetryConfig 1 [replyOf (HttpResponse 429 None)]
            (logEvent (EvSelected (name (providers openaiDown ! 1))) openaiDown)))))
      (name (providers (snd (snd (callWithRetry defaultRetryConfig 1 [replyOf (HttpResponse 429 None)]
            (logEvent (EvSelected (name (providers openaiDown ! 1))) openaiDown)))) ! 1))
      (providers (snd (snd (callWithRetry defaultRetryConfig 1 [replyOf (HttpResponse 429 None)]
            (logEvent (EvSelected (name (providers openaiDown ! 1))) openaiDown)))))) = None"
    by code_simp
  have h5: "modelToProvider (NewProviderRouter [openaiConfig]) (Model gptRequest) \<noteq> []"
    by code_simp
  have h6: "find (\<lambda>p. p \<noteq> ''openai'') (modelToProvider (NewProviderRouter [openaiConfig]) (Model gptRequest)) = None"
    "hd (modelToProvider (NewProviderRouter [openaiConfig]) (Model gptRequest)) = ''openai''"
    by code_simp+
  have h7: "map name (providers openaiDown) = [''openai'', ''anthropic'']"
    "fst (canExecute 110 (circuit (providers openaiDown ! 0))) = False"
    by code_simp+
  from getNextProvider_wraps_around
         [of "providers openaiDown" 110 "''anthropic''" defaultRetryConfig 1
             "[replyOf (HttpResponse 429 None)]" openaiDown 0
             "NewProviderRouter [openaiConfig]" gptRequest 2 "''openai''"]
  show ?thesis
    using h1 h2 h3 h4 h5 h6 h7 unfolding Let_def by auto
qed

section \<open>Failover after a rate limit\<close>

lemma retry_first_event:
  assumes "callWithRetryLoop rc i k (reply # script) w = (res, s', w')"
    and "k \<le> maxAttempts rc" and "i < length (providers w)"
  shows "\<exists>es. events w' = events w
           @ EvAttempt (name (providers w ! i)) k (isOpen (circuit (providers w ! i)))
               (case doRequest (raw reply) of Inl x \<Rightarrow> Failed x | Inr c \<Rightarrow> Succeeded) # es"
proof (cases "doRequest (raw reply)")
  case (Inr c)
  with assms show ?thesis by (auto simp: Let_def logEvent_def sleep_def)
next
  case (Inl x)
  let ?p = "providers w ! i"
  let ?w1 = "sleep (latency reply) w"
  let ?w2 = "logEvent (EvAttempt (name ?p) k (isOpen (circuit ?p)) (Failed x))
               (?w1\<lparr>providers := setCircuit i (recordFailure (clock ?w1) (circuit ?p)) (providers ?w1)\<rparr>)"
  have ev2: "events ?w2 = events w @ [EvAttempt (name ?p) k (isOpen (circuit ?p)) (Failed x)]"
    by (simp add: logEvent_def sleep_def)
  have len2: "i < length (providers ?w2)"
    using assms(3) by (simp add: logEvent_def sleep_def)
  consider (stop) "isFailover x \<or> notRetryable x"
    | (wait) "\<not> isFailover x" "\<not> notRetryable x" "k < maxAttempts rc"
    | (last) "\<not> isFailover x" "\<not> notRetryable x" "\<not> k < maxAttempts rc"
    by blast
  then show ?thesis
  proof cases
    case stop
    then have "w' = ?w2" using assms(1,2) Inl by (auto simp: Let_def split: if_splits)
    then show ?thesis using ev2 Inl by simp
  next
    case wait
    let ?wait = "calculateBackoff rc k (rnd reply)"
    let ?w3 = "sleep ?wait (logEvent (EvBackoff ?wait) ?w2)"
    have r: "callWithRetryLoop rc i (k + 1) script ?w3 = (res, s', w')"
      using assms(1,2) Inl wait by (simp add: Let_def)
    have "i < length (providers ?w3)" using assms(3) by (simp add: logEvent_def sleep_def)
    from retry_trace [OF r this] obtain es where "events w' = events ?w3 @ es" by blast
    then show ?thesis using Inl by (simp add: logEvent_def sleep_def)
  next
    case last
    have r: "callWithRetryLoop rc i (k + 1) script ?w2 = (res, s', w')"
      using assms(1,2) Inl last by (simp add: Let_def)
    from retry_trace [OF r len2] obtain es where "events w' = events ?w2 @ es" by blast
    then show ?thesis using Inl ev2 by simp
  qed
qed


lemma callLoop_first_events:
  assumes "j < length (providers w)" and "1 \<le> maxAttempts rc"
  shows "\<exists>es. events (snd (snd (callLoop rc j t (reply # s) w)))
           = events w @ EvSelected (name (providers w ! j))
               # EvAttempt (name (providers w ! j)) 1 (isOpen (circuit (providers w ! j)))
                   (case doRequest (raw reply) of Inl x \<Rightarrow> Failed x | Inr c \<Rightarrow> Succeeded) # es"
proof -
  let ?nm = "name (providers w ! j)"
  let ?w0 = "logEvent (EvSelected ?nm) w"
  let ?a = "EvAttempt ?nm 1 (isOpen (circuit (providers w ! j)))
              (case doRequest (raw reply) of Inl x \<Rightarrow> Failed x | Inr c \<Rightarrow> Succeeded)"
  obtain r1 s1 w1 where cr: "callWithRetry rc j (reply # s) ?w0 = (r1, s1, w1)"
    by (cases "callWithRetry rc j (reply # s) ?w0") auto
  have j0: "j < length (providers ?w0)" using assms(1) by (simp add: logEvent_def)
  have p0: "providers ?w0 = providers w" by (simp add: logEvent_def)
  from cr have cr': "callWithRetryLoop rc j 1 (reply # s) ?w0 = (r1, s1, w1)"
    by (simp add: callWithRetry_def)
  from retry_first_event [OF cr' assms(2) j0] obtain es where
    e1: "events w1 = events w @ EvSelected ?nm # ?a # es"
    by (auto simp: p0 logEvent_def)
  from retry_trace [OF cr' j0] have n1: "map name (providers w1) = map name (providers w)"
    by (auto simp: p0)
  then have l1: "length (providers w1) = length (providers w)" by (metis length_map)
  show ?thesis
  proof (cases r1)
    case (Returned result)
    then show ?thesis using cr e1 by (subst callLoop.simps) simp
  next
    case ScriptEnd
    then show ?thesis using cr e1 by (subst callLoop.simps) simp
  next
    case (Threw e)
    show ?thesis
    proof (cases "isFailover e")
      case False
      then show ?thesis using cr e1 Threw by (subst callLoop.simps) simp
    next
      case True
      let ?cur = "name (providers w1 ! j)"
      obtain sel ps' where g: "getNextProvider (clock w1) ?cur (providers w1) = (sel, ps')"
        by (cases "getNextProvider (clock w1) ?cur (providers w1)") auto
      show ?thesis
      proof (cases sel)
        case None
        then show ?thesis using cr e1 Threw True g
          by (subst callLoop.simps) (simp add: logEvent_def)
      next
        case (Some j')
        let ?w2 = "logEvent (EvFailover ?cur (Some (name (ps' ! j')))) (w1\<lparr>providers := ps'\<rparr>)"
        have "j' < length ps'"
          using getNextProvider_index [of "clock w1" ?cur "providers w1" j'] g Some by simp
        then have j2: "j' < length (providers ?w2)" by (simp add: logEvent_def)
        obtain r3 s3 w3 where run: "callLoop rc j' (t + maxAttempts rc) s1 ?w2 = (r3, s3, w3)"
          by (cases "callLoop rc j' (t + maxAttempts rc) s1 ?w2") auto
        from call_trace [OF run j2] obtain es' where "events w3 = events ?w2 @ es'" by blast
        then have "events w3 = events w @ EvSelected ?nm # ?a # (es @ EvFailover ?cur (Some (name (ps' ! j'))) # es')"
          using e1 by (simp add: logEvent_def)
        moreover have "callLoop rc j t (reply # s) w = (r3, s3, w3)"
          using cr Threw True g Some run by (subst callLoop.simps) simp
        ultimately show ?thesis by simp
      qed
    qed
  qed
qed


lemma callWithRetryLoop_failover_step:
  assumes "k \<le> maxAttempts rc" and "doRequest (raw reply) = Inl e" and "isFailover e"
  shows "callWithRetryLoop rc i k (reply # script) w
     = (Threw e, script,
        w\<lparr>clock := clock w + latency reply,
          providers := setCircuit i (recordFailure (clock w + latency reply) (circuit (providers w ! i)))
                         (providers w),
          events := events w @ [EvAttempt (name (providers w ! i)) k
                                  (isOpen (circuit (providers w ! i))) (Failed e)]\<rparr>)"
  using assms by (simp add: Let_def logEvent_def sleep_def)

text \<open>
  C8 (as stated): for every attempt that fails with a rate-limit (failover-only)
  classification, the same provider is never retried: the remaining same-provider
  attempts are skipped with no local backoff wait, and the very next attempt targets the
  next eligible provider, with that provider's attempt counter restarting at 1.
  The skip and the next attempt are as stated, but the provider can be tried again in
  the same request: the router keeps no set of excluded providers and wraps around.
  With both circuits closed, openai answers 429, the request moves to anthropic,
  anthropic answers 429, and the next attempt goes to openai again.
\<close>

theorem rate_limited_provider_tried_again_counterexample:
  "isFailover (PE rateLimitError)
   \<and> filter isAction (newEvents freshWorld (snd (snd (call defaultRetryConfig
        [replyOf (HttpResponse 429 None), replyOf (HttpResponse 429 None),
         replyOf (HttpResponse 200 (Some ''hi''))] freshWorld))))
     = [EvAttempt ''openai'' 1 False (Failed (PE rateLimitError)),
        EvAttempt ''anthropic'' 1 False (Failed (PE rateLimitError)),
        EvAttempt ''openai'' 1 False Succeeded]"
  by code_simp

text \<open>
  C8 (amended): an attempt that fails with a failover error, which is what a 429 gives,
  ends callWithRetry at once: the error is thrown from that attempt, whatever its number,
  the remaining replies are left untouched, the clock has advanced by the latency of the
  request only, and the failed attempt is the last entry of the log, with no backoff
  entry after it. call then asks the router for the next provider, which is the first
  provider of another name whose circuit admits a request, looking after the current
  provider and then before it. If there is none, the request ends with
  "All attempts failed" and no further attempt. Otherwise the entries that follow the
  failed attempt in the log are the failover to that provider, its selection, and
  attempt number 1 on it, with its circuit not open. In every run of call the log only
  grows, and the action that follows an attempt failed by a failover error is never a
  backoff wait and never an attempt on the same provider. The provider that was rate limited can be selected
  again later in the same request, when another provider fails over in turn.
\<close>

theorem rate_limit_failover_step:
  assumes run: "callWithRetry rc i script (logEvent (EvSelected (name (providers w ! i))) w)
                  = (Threw e, s1, w1)"
    and fo: "isFailover e" and i: "i < length (providers w)"
  shows "(\<exists>k opn. last (events w1) = EvAttempt (name (providers w ! i)) k opn (Failed e))
   \<and> callLoop rc i t script w
       = (case getNextProvider (clock w1) (name (providers w ! i)) (providers w1) of
            (None, ps') \<Rightarrow>
              (Threw (PlainError ''All attempts failed''), s1,
               logEvent (EvFailover (name (providers w ! i)) None) (w1\<lparr>providers := ps'\<rparr>))
          | (Some j, ps') \<Rightarrow>
              callLoop rc j (t + maxAttempts rc) s1
                (logEvent (EvFailover (name (providers w ! i)) (Some (name (ps' ! j))))
                   (w1\<lparr>providers := ps'\<rparr>)))
   \<and> map_option ((!) (providers w1))
         (fst (getNextProvider (clock w1) (name (providers w ! i)) (providers w1)))
       = find (\<lambda>p. name p \<noteq> name (providers w ! i) \<and> fst (canExecute (clock w1) (circuit p)))
           (dropWhile (\<lambda>p. name p \<noteq> name (providers w ! i)) (providers w1)
            @ takeWhile (\<lambda>p. name p \<noteq> name (providers w ! i)) (providers w1))
   \<and> (getNextProvider (clock w1) (name (providers w ! i)) (providers w1) = (Some j, ps')
        \<and> s1 = reply # s2 \<and> 1 \<le> maxAttempts rc \<longrightarrow>
        name (ps' ! j) \<noteq> name (providers w ! i)
        \<and> take 3 (newEvents w1 (snd (snd (callLoop rc i t script w))))
            = [EvFailover (name (providers w ! i)) (Some (name (ps' ! j))),
               EvSelected (name (ps' ! j)),
               EvAttempt (name (ps' ! j)) 1 False
                 (case doRequest (raw reply) of Inl x \<Rightarrow> Failed x | Inr c \<Rightarrow> Succeeded)])
   \<and> (k \<le> maxAttempts rc \<and> doRequest (raw r0) = Inl e0 \<and> isFailover e0 \<longrightarrow>
        callWithRetryLoop rc i0 k (r0 # sc0) w0
          = (Threw e0, sc0,
             w0\<lparr>clock := clock w0 + latency r0,
                providers := setCircuit i0 (recordFailure (clock w0 + latency r0)
                                              (circuit (providers w0 ! i0))) (providers w0),
                events := events w0 @ [EvAttempt (name (providers w0 ! i0)) k
                                         (isOpen (circuit (providers w0 ! i0))) (Failed e0)]\<rparr>))
   \<and> doRequest (HttpResponse 429 body) = Inl (PE rateLimitError)
   \<and> isFailover (PE rateLimitError)
   \<and> take (length (events w')) (events (snd (snd (call rc script' w')))) = events w'
   \<and> successively afterRateLimit
        (filter isAction (newEvents w' (snd (snd (call rc script' w')))))"
proof -
  let ?cur = "name (providers w ! i)"
  let ?w0 = "logEvent (EvSelected ?cur) w"
  have i0: "i < length (providers ?w0)" and p0: "providers ?w0 = providers w"
    using i by (simp_all add: logEvent_def)
  from run have run': "callWithRetryLoop rc i 1 script ?w0 = (Threw e, s1, w1)"
    by (simp add: callWithRetry_def)
  from retry_trace [OF run' i0] fo obtain es k1 opn1 where
    es: "events w1 = events ?w0 @ es" "es \<noteq> []"
      "last es = EvAttempt ?cur k1 opn1 (Failed e)"
    and nm: "map name (providers w1) = map name (providers w)"
    by (auto simp: p0)
  have c1: "\<exists>k opn. last (events w1) = EvAttempt ?cur k opn (Failed e)"
    using es by auto
  have cur: "name (providers w1 ! i) = ?cur"
    using nm i by (rule name_nth_eq)
  have c2: "callLoop rc i t script w
       = (case getNextProvider (clock w1) ?cur (providers w1) of
            (None, ps') \<Rightarrow>
              (Threw (PlainError ''All attempts failed''), s1,
               logEvent (EvFailover ?cur None) (w1\<lparr>providers := ps'\<rparr>))
          | (Some j, ps') \<Rightarrow>
              callLoop rc j (t + maxAttempts rc) s1
                (logEvent (EvFailover ?cur (Some (name (ps' ! j)))) (w1\<lparr>providers := ps'\<rparr>)))"
  proof -
    have "callLoop rc i t script w
       = (case getNextProvider (clock w1) (name (providers w1 ! i)) (providers w1) of
            (None, ps') \<Rightarrow>
              (Threw (PlainError ''All attempts failed''), s1,
               logEvent (EvFailover (name (providers w1 ! i)) None) (w1\<lparr>providers := ps'\<rparr>))
          | (Some j, ps') \<Rightarrow>
              callLoop rc j (t + maxAttempts rc) s1
                (logEvent (EvFailover (name (providers w1 ! i)) (Some (name (ps' ! j))))
                   (w1\<lparr>providers := ps'\<rparr>)))"
      using run fo by (subst callLoop.simps) simp
    then show ?thesis unfolding cur .
  qed
  have c3: "map_option ((!) (providers w1)) (fst (getNextProvider (clock w1) ?cur (providers w1)))
       = find (\<lambda>p. name p \<noteq> ?cur \<and> fst (canExecute (clock w1) (circuit p)))
           (dropWhile (\<lambda>p. name p \<noteq> ?cur) (providers w1)
            @ takeWhile (\<lambda>p. name p \<noteq> ?cur) (providers w1))"
    by (rule getNextProvider_picks)
  have c4: "getNextProvider (clock w1) ?cur (providers w1) = (Some j, ps')
        \<and> s1 = reply # s2 \<and> 1 \<le> maxAttempts rc \<longrightarrow>
        name (ps' ! j) \<noteq> ?cur
        \<and> take 3 (newEvents w1 (snd (snd (callLoop rc i t script w))))
            = [EvFailover ?cur (Some (name (ps' ! j))),
               EvSelected (name (ps' ! j)),
               EvAttempt (name (ps' ! j)) 1 False
                 (case doRequest (raw reply) of Inl x \<Rightarrow> Failed x | Inr c \<Rightarrow> Succeeded)]"
  proof (intro impI)
    assume a: "getNextProvider (clock w1) ?cur (providers w1) = (Some j, ps')
        \<and> s1 = reply # s2 \<and> 1 \<le> maxAttempts rc"
    then have g: "getNextProvider (clock w1) ?cur (providers w1) = (Some j, ps')"
      and s: "s1 = reply # s2" and m: "1 \<le> maxAttempts rc"
      by simp_all
    let ?w2 = "logEvent (EvFailover ?cur (Some (name (ps' ! j)))) (w1\<lparr>providers := ps'\<rparr>)"
    from getNextProvider_index [of "clock w1" ?cur "providers w1" j] g
    have j: "j < length ps'" and nj: "name (ps' ! j) \<noteq> ?cur" by simp_all
    from getNextProvider_closed [of "clock w1" ?cur "providers w1" j] g
    have "cb_state (circuit (ps' ! j)) = CLOSED" by simp
    then have op: "\<not> isOpen (circuit (ps' ! j))" by (simp add: isOpen_def)
    have j2: "j < length (providers ?w2)" and p2: "providers ?w2 = ps'"
      and e2: "events ?w2 = events w1 @ [EvFailover ?cur (Some (name (ps' ! j)))]"
      using j by (simp_all add: logEvent_def)
    from callLoop_first_events [OF j2 m, of "t + maxAttempts rc" reply s2] obtain es' where
      "events (snd (snd (callLoop rc j (t + maxAttempts rc) (reply # s2) ?w2)))
         = events ?w2 @ EvSelected (name (ps' ! j))
             # EvAttempt (name (ps' ! j)) 1 (isOpen (circuit (ps' ! j)))
                 (case doRequest (raw reply) of Inl x \<Rightarrow> Failed x | Inr c \<Rightarrow> Succeeded) # es'"
      unfolding p2 by blast
    moreover have "callLoop rc i t script w = callLoop rc j (t + maxAttempts rc) (reply # s2) ?w2"
      using c2 g s by simp
    ultimately have "events (snd (snd (callLoop rc i t script w)))
         = events w1 @ EvFailover ?cur (Some (name (ps' ! j))) # EvSelected (name (ps' ! j))
             # EvAttempt (name (ps' ! j)) 1 False
                 (case doRequest (raw reply) of Inl x \<Rightarrow> Failed x | Inr c \<Rightarrow> Succeeded) # es'"
      using e2 op by simp
    then show "name (ps' ! j) \<noteq> ?cur
        \<and> take 3 (newEvents w1 (snd (snd (callLoop rc i t script w))))
            = [EvFailover ?cur (Some (name (ps' ! j))),
               EvSelected (name (ps' ! j)),
               EvAttempt (name (ps' ! j)) 1 False
                 (case doRequest (raw reply) of Inl x \<Rightarrow> Failed x | Inr c \<Rightarrow> Succeeded)]"
      using nj by (simp add: newEvents_def)
  qed
  have c5: "k \<le> maxAttempts rc \<and> doRequest (raw r0) = Inl e0 \<and> isFailover e0 \<longrightarrow>
        callWithRetryLoop rc i0 k (r0 # sc0) w0
          = (Threw e0, sc0,
             w0\<lparr>clock := clock w0 + latency r0,
                providers := setCircuit i0 (recordFailure (clock w0 + latency r0)
                                              (circuit (providers w0 ! i0))) (providers w0),
                events := events w0 @ [EvAttempt (name (providers w0 ! i0)) k
                                         (isOpen (circuit (providers w0 ! i0))) (Failed e0)]\<rparr>)"
    by (intro impI, elim conjE, rule callWithRetryLoop_failover_step)
  have c6: "doRequest (HttpResponse 429 body) = Inl (PE rateLimitError)"
    and c7: "isFailover (PE rateLimitError)"
    by (simp_all add: doRequest_def isFailover_def rateLimitError_def)
  have c8: "take (length (events w')) (events (snd (snd (call rc script' w')))) = events w'
     \<and> successively afterRateLimit
          (filter isAction (newEvents w' (snd (snd (call rc script' w')))))"
  proof (cases "getHealthyProvider (clock w') (providers w')")
    case (Pair sel ps')
    show ?thesis
    proof (cases sel)
      case None
      with Pair show ?thesis by (simp add: call_def newEvents_def)
    next
      case (Some i')
      let ?w = "w'\<lparr>providers := ps'\<rparr>"
      obtain res s'' w'' where r: "callLoop rc i' 0 script' ?w = (res, s'', w'')"
        by (cases "callLoop rc i' 0 script' ?w") auto
      have "i' < length (providers ?w)"
        using getHealthyProvider_index [of "clock w'" "providers w'" i'] Pair Some by simp
      from call_trace [OF r this] obtain es where
        "events w'' = events w' @ es" "successively afterRateLimit (filter isAction es)"
        by auto
      moreover have "call rc script' w' = (res, s'', w'')"
        using Pair Some r by (simp add: call_def)
      ultimately show ?thesis by (simp add: newEvents_def)
    qed
  qed
  show ?thesis
    by (intro conjI c1 c2 c3 c4 c5 c6 c7 c8 [THEN conjunct1] c8 [THEN conjunct2])
qed

theorem rate_limit_failover_step_witness:
  "callWithRetry defaultRetryConfig 1
       [replyOf (HttpResponse 429 None), replyOf (HttpResponse 200 (Some ''hi''))]
       (logEvent (EvSelected (name (providers freshWorld ! 1))) freshWorld)
     = (Threw (PE rateLimitError), [replyOf (HttpResponse 200 (Some ''hi''))], afterAnthropic429)
   \<and> isFailover (PE rateLimitError)
   \<and> 1 < length (providers freshWorld)
   \<and> name (providers freshWorld ! 1) = ''anthropic''
   \<and> getNextProvider (clock afterAnthropic429) (name (providers freshWorld ! 1))
         (providers afterAnthropic429)
       = (Some 0, providers afterAnthropic429)
   \<and> 1 \<le> maxAttempts defaultRetryConfig
   \<and> doRequest (raw (replyOf (HttpResponse 429 None))) = Inl (PE rateLimitError)
   \<and> last (events afterAnthropic429) = EvAttempt ''anthropic'' 1 False (Failed (PE rateLimitError))
   \<and> find (\<lambda>p. name p \<noteq> ''anthropic'' \<and> fst (canExecute 10 (circuit p)))
         (dropWhile (\<lambda>p. name p \<noteq> ''anthropic'') (providers afterAnthropic429)
          @ takeWhile (\<lambda>p. name p \<noteq> ''anthropic'') (providers afterAnthropic429))
       = Some (providers afterAnthropic429 ! 0)
   \<and> name (providers afterAnthropic429 ! 0) = ''openai''
   \<and> take 3 (newEvents afterAnthropic429 (snd (snd (callLoop defaultRetryConfig 1 0
         [replyOf (HttpResponse 429 None), replyOf (HttpResponse 200 (Some ''hi''))] freshWorld))))
       = [EvFailover ''anthropic'' (Some ''openai''), EvSelected ''openai'',
          EvAttempt ''openai'' 1 False Succeeded]
   \<and> callWithRetryLoop defaultRetryConfig 1 1
         [replyOf (HttpResponse 429 None), replyOf (HttpResponse 200 (Some ''hi''))]
         (logEvent (EvSelected ''anthropic'') freshWorld)
       = (Threw (PE rateLimitError), [replyOf (HttpResponse 200 (Some ''hi''))],
          (logEvent (EvSelected ''anthropic'') freshWorld)
            \<lparr>clock := 0 + 10,
             providers := setCircuit 1 (recordFailure (0 + 10) (newCircuitBreaker ''anthropic''))
                            (providers freshWorld),
             events := [EvSelected ''anthropic'']
                       @ [EvAttempt ''anthropic'' 1 False (Failed (PE rateLimitError))]\<rparr>)
   \<and> filter isAction (newEvents freshWorld (snd (snd (call defaultRetryConfig
        [replyOf (HttpResponse 500 None), replyOf (HttpResponse 429 None),
         replyOf (HttpResponse 200 (Some ''hi''))] freshWorld))))
     = [EvAttempt ''openai'' 1 False (Failed (PE (serverError 500))),
        EvBackoff 1000,
        EvAttempt ''openai'' 2 False (Failed (PE rateLimitError)),
        EvAttempt ''anthropic'' 1 False Succeeded]
   \<and> successively afterRateLimit
        [EvAttempt ''openai'' 1 False (Failed (PE (serverError 500))),
         EvBackoff 1000,
         EvAttempt ''openai'' 2 False (Failed (PE rateLimitError)),
         EvAttempt ''anthropic'' 1 False Succeeded]"
proof -
  let ?script = "[replyOf (HttpResponse 429 None), replyOf (HttpResponse 200 (Some ''hi''))]"
  let ?script3 = "[replyOf (HttpResponse 500 None), replyOf (HttpResponse 429 None),
                   replyOf (HttpResponse 200 (Some ''hi''))]"
  have run3: "filter isAction (newEvents freshWorld (snd (snd (call defaultRetryConfig
        ?script3 freshWorld))))
     = [EvAttempt ''openai'' 1 False (Failed (PE (serverError 500))),
        EvBackoff 1000,
        EvAttempt ''openai'' 2 False (Failed (PE rateLimitError)),
        EvAttempt ''anthropic'' 1 False Succeeded]"
    by code_simp
  let ?w0 = "logEvent (EvSelected ''anthropic'') freshWorld"
  have h1: "callWithRetry defaultRetryConfig 1 ?script
       (logEvent (EvSelected (name (providers freshWorld ! 1))) freshWorld)
     = (Threw (PE rateLimitError), [replyOf (HttpResponse 200 (Some ''hi''))], afterAnthropic429)"
    by code_simp
  have h2: "isFailover (PE rateLimitError)"
    by code_simp
  have h3: "1 < length (providers freshWorld)"
    by code_simp
  have nm: "name (providers freshWorld ! 1) = ''anthropic''"
    by code_simp
  have h4: "getNextProvider (clock afterAnthropic429) (name (providers freshWorld ! 1))
         (providers afterAnthropic429)
       = (Some 0, providers afterAnthropic429)"
    by code_simp
  have h5: "1 \<le> maxAttempts defaultRetryConfig"
    by code_simp
  have h6: "doRequest (raw (replyOf (HttpResponse 429 None))) = Inl (PE rateLimitError)"
    by code_simp
  have v: "clock afterAnthropic429 = 10" "name (providers afterAnthropic429 ! 0) = ''openai''"
    "raw (replyOf (HttpResponse 200 (Some ''hi''))) = HttpResponse 200 (Some ''hi'')"
    "doRequest (HttpResponse 200 (Some ''hi'')) = Inr ''hi''"
    "last (events afterAnthropic429) = EvAttempt ''anthropic'' 1 False (Failed (PE rateLimitError))"
    "clock ?w0 = 0" "latency (replyOf (HttpResponse 429 None)) = 10"
    "events ?w0 = [EvSelected ''anthropic'']"
    "providers ?w0 = providers freshWorld"
    "circuit (providers freshWorld ! 1) = newCircuitBreaker ''anthropic''"
    "isOpen (newCircuitBreaker ''anthropic'') = False"
    by code_simp+
  note t = rate_limit_failover_step
    [OF h1 h2 h3,
     where t = 0 and j = 0 and ps' = "providers afterAnthropic429"
       and reply = "replyOf (HttpResponse 200 (Some ''hi''))" and ?s2.0 = "[]"
       and k = 1 and ?r0.0 = "replyOf (HttpResponse 429 None)" and ?e0.0 = "PE rateLimitError"
       and ?i0.0 = 1 and ?sc0.0 = "[replyOf (HttpResponse 200 (Some ''hi''))]" and ?w0.0 = ?w0
       and w' = freshWorld and script' = ?script3]
  from t have "successively afterRateLimit
        (filter isAction (newEvents freshWorld (snd (snd (call defaultRetryConfig
           ?script3 freshWorld)))))"
    by blast
  then have d: "successively afterRateLimit
        [EvAttempt ''openai'' 1 False (Failed (PE (serverError 500))),
         EvBackoff 1000,
         EvAttempt ''openai'' 2 False (Failed (PE rateLimitError)),
         EvAttempt ''anthropic'' 1 False Succeeded]"
    unfolding run3 .
  from t have "map_option ((!) (providers afterAnthropic429))
         (fst (getNextProvider (clock afterAnthropic429) (name (providers freshWorld ! 1))
                 (providers afterAnthropic429)))
       = find (\<lambda>p. name p \<noteq> name (providers freshWorld ! 1)
                    \<and> fst (canExecute (clock afterAnthropic429) (circuit p)))
           (dropWhile (\<lambda>p. name p \<noteq> name (providers freshWorld ! 1)) (providers afterAnthropic429)
            @ takeWhile (\<lambda>p. name p \<noteq> name (providers freshWorld ! 1)) (providers afterAnthropic429))"
    by blast
  then have a: "find (\<lambda>p. name p \<noteq> ''anthropic'' \<and> fst (canExecute 10 (circuit p)))
         (dropWhile (\<lambda>p. name p \<noteq> ''anthropic'') (providers afterAnthropic429)
          @ takeWhile (\<lambda>p. name p \<noteq> ''anthropic'') (providers afterAnthropic429))
       = Some (providers afterAnthropic429 ! 0)"
    using h4 unfolding nm v(1) by simp
  from t h4 h5 have "take 3 (newEvents afterAnthropic429 (snd (snd (callLoop defaultRetryConfig 1 0
         ?script freshWorld))))
       = [EvFailover (name (providers freshWorld ! 1)) (Some (name (providers afterAnthropic429 ! 0))),
          EvSelected (name (providers afterAnthropic429 ! 0)),
          EvAttempt (name (providers afterAnthropic429 ! 0)) 1 False
            (case doRequest (raw (replyOf (HttpResponse 200 (Some ''hi'')))) of
               Inl x \<Rightarrow> Failed x | Inr c \<Rightarrow> Succeeded)]"
    by blast
  then have b: "take 3 (newEvents afterAnthropic429 (snd (snd (callLoop defaultRetryConfig 1 0
         ?script freshWorld))))
       = [EvFailover ''anthropic'' (Some ''openai''), EvSelected ''openai'',
          EvAttempt ''openai'' 1 False Succeeded]"
    unfolding nm v(2) v(3) v(4) by simp
  from t h5 h6 h2 have "callWithRetryLoop defaultRetryConfig 1 1
         (replyOf (HttpResponse 429 None) # [replyOf (HttpResponse 200 (Some ''hi''))]) ?w0
       = (Threw (PE rateLimitError), [replyOf (HttpResponse 200 (Some ''hi''))],
          ?w0\<lparr>clock := clock ?w0 + latency (replyOf (HttpResponse 429 None)),
             providers := setCircuit 1 (recordFailure (clock ?w0 + latency (replyOf (HttpResponse 429 None)))
                                          (circuit (providers ?w0 ! 1))) (providers ?w0),
             events := events ?w0 @ [EvAttempt (name (providers ?w0 ! 1)) 1
                                      (isOpen (circuit (providers ?w0 ! 1)))
                                      (Failed (PE rateLimitError))]\<rparr>)"
    by blast
  then have c: "callWithRetryLoop defaultRetryConfig 1 1 ?script ?w0
       = (Threw (PE rateLimitError), [replyOf (HttpResponse 200 (Some ''hi''))],
          ?w0\<lparr>clock := 0 + 10,
             providers := setCircuit 1 (recordFailure (0 + 10) (newCircuitBreaker ''anthropic''))
                            (providers freshWorld),
             events := [EvSelected ''anthropic'']
                       @ [EvAttempt ''anthropic'' 1 False (Failed (PE rateLimitError))]\<rparr>)"
    unfolding v(6-11) nm by simp
  show ?thesis
    by (intro conjI h1 h2 h3 nm h4 h5 h6 v(5) a v(2) b c run3 d)
qed

section \<open>The reported number of attempts\<close>

text \<open>
  C3: the reported total attempt count is the number of attempts made against A plus
  the number made against B. The code does not do that: when a provider fails over,
  call adds maxAttempts to totalAttempts, not the number of attempts it made. With
  maxAttempts = 3, a rate limit on the first attempt against openai and a success on
  the first attempt against anthropic, two attempts are made and 4 are reported.
\<close>

theorem call_reports_maxAttempts_per_failed_provider:
  "fst (call defaultRetryConfig
          [replyOf (HttpResponse 429 None), replyOf (HttpResponse 200 (Some ''hi''))] freshWorld)
     = Returned \<lparr>r_content = ''hi'', r_provider = ''anthropic'', r_attempts = 4\<rparr>
   \<and> filter isAttempt (events (snd (snd (call defaultRetryConfig
          [replyOf (HttpResponse 429 None), replyOf (HttpResponse 200 (Some ''hi''))] freshWorld))))
     = [EvAttempt ''openai'' 1 False (Failed (PE rateLimitError)),
        EvAttempt ''anthropic'' 1 False Succeeded]"
  by code_simp


section \<open>Opening the circuit\<close>

lemma recordFailure_opens:
  "consecutiveFails cb + 1 \<ge> failureThreshold (cb_config cb)
   \<Longrightarrow> cb_state (recordFailure now cb) = OPEN"
  by (simp add: recordFailure_def Let_def)

lemma recordFailure_count:
  "consecutiveFails (fold recordFailure ts cb) = consecutiveFails cb + int (length ts)
   \<and> cb_config (fold recordFailure ts cb) = cb_config cb"
  by (induction ts arbitrary: cb) (auto simp: recordFailure_def Let_def)

lemma threshold_failures_open:
  assumes "consecutiveFails cb = 0" and "int (length ts) = failureThreshold (cb_config cb)"
    and "ts \<noteq> []"
  shows "cb_state (fold recordFailure ts cb) = OPEN"
proof -
  from assms(3) obtain us t where ts: "ts = us @ [t]"
    by (metis rev_exhaust)
  have "consecutiveFails (fold recordFailure us cb) + 1 = failureThreshold (cb_config cb)"
    using recordFailure_count [of us cb] assms(1,2) ts by simp
  then show ?thesis
    using recordFailure_count [of us cb] by (simp add: ts recordFailure_opens)
qed

lemma canExecute_rejects_while_open:
  "cb_state cb = OPEN \<Longrightarrow> now - lastFailure cb \<le> resetTimeout (cb_config cb)
   \<Longrightarrow> canExecute now cb = (False, cb)"
  by (simp add: canExecute_def Let_def)

lemma getHealthyProvider_picks:
  "map_option ((!) ps) (fst (getHealthyProvider now ps))
   = find (\<lambda>p. fst (canExecute now (circuit p))) ps"
proof (induction ps)
  case Nil
  show ?case by simp
next
  case (Cons p ps)
  obtain ok c where ce: "canExecute now (circuit p) = (ok, c)"
    by (cases "canExecute now (circuit p)") auto
  show ?case
  proof (cases ok)
    case True
    with ce show ?thesis by simp
  next
    case False
    with ce have "map_option ((!) (p # ps)) (fst (getHealthyProvider now (p # ps)))
               = map_option ((!) ps) (fst (getHealthyProvider now ps))"
      by (cases "fst (getHealthyProvider now ps)") (simp_all add: past_def)
    with False ce Cons.IH show ?thesis by simp
  qed
qed

text \<open>
  C6: reaching failureThreshold consecutive failures opens the circuit, and while it is
  open canExecute returns false, so the provider receives no new attempt until the reset
  interval has elapsed. The circuit does open at the threshold and canExecute does
  refuse (lemmas above), but the retry loop of callWithRetry does not ask canExecute
  between attempts. A first request is rate-limited by openai once and served by
  anthropic; openai has then one failure counted. A second request is selected for
  openai and gets three server errors: the second one opens the circuit, canExecute
  refuses at the time of the third attempt, and the third attempt is sent all the same.
\<close>

theorem retry_continues_on_open_circuit:
  "fst (call defaultRetryConfig
          [replyOf (HttpResponse 429 None), replyOf (HttpResponse 200 (Some ''hi''))] freshWorld)
     = Returned \<lparr>r_content = ''hi'', r_provider = ''anthropic'', r_attempts = 4\<rparr>
   \<and> (let w1 = snd (snd (call defaultRetryConfig
          [replyOf (HttpResponse 429 None), replyOf (HttpResponse 200 (Some ''hi''))] freshWorld));
           wm = snd (snd (call defaultRetryConfig
                  [replyOf (HttpResponse 500 None), replyOf (HttpResponse 500 None)] w1));
           w2 = snd (snd (call defaultRetryConfig
                  [replyOf (HttpResponse 500 None), replyOf (HttpResponse 500 None),
                   replyOf (HttpResponse 500 None)] w1))
       in consecutiveFails (circuit (providers w1 ! 0)) = 1
          \<and> cb_state (circuit (providers w1 ! 0)) = CLOSED
          \<and> clock wm = 3040
          \<and> cb_state (circuit (providers wm ! 0)) = OPEN
          \<and> canExecute (clock wm) (circuit (providers wm ! 0)) = (False, circuit (providers wm ! 0))
          \<and> filter isAttempt (newEvents w1 w2)
              = [EvAttempt ''openai'' 1 False (Failed (PE (serverError 500))),
                 EvAttempt ''openai'' 2 False (Failed (PE (serverError 500))),
                 EvAttempt ''openai'' 3 True (Failed (PE (serverError 500)))])"
  by code_simp

section \<open>The streaming relay\<close>

lemma processLine_Continue:
  assumes "processLine parse line partial = Continue p' evs"
  shows "\<exists>ds. evs = map OnChunk ds \<and> p' = partial @ concat (map (deltaOf parse) ds)"
proof (cases "evs = []")
  case True
  with assms have "p' = partial"
    by (auto simp: processLine_def Let_def split: if_splits Parsed.splits option.splits)
  with True show ?thesis by (intro exI [of _ "[]"]) simp
next
  case False
  with assms obtain c where
    "parse (trim (drop 6 line)) = Delta (Some c)" "evs = [OnChunk (trim (drop 6 line))]"
    "p' = partial @ c"
    by (auto simp: processLine_def Let_def split: if_splits Parsed.splits option.splits)
  then show ?thesis
    by (intro exI [of _ "[trim (drop 6 line)]"]) (simp add: deltaOf_def)
qed

lemma processLine_Return:
  assumes "processLine parse line partial = Return evs"
  shows "evs = [OnDone] \<or> (\<exists>msg. evs = [OnError msg partial])"
  using assms
  by (auto simp: processLine_def Let_def split: if_splits Parsed.splits option.splits)

lemma processLines_Continue:
  "processLines parse lines partial = Continue p' evs \<Longrightarrow>
   \<exists>ds. evs = map OnChunk ds \<and> p' = partial @ concat (map (deltaOf parse) ds)"
proof (induction lines arbitrary: partial p' evs)
  case Nil
  then show ?case by (intro exI [of _ "[]"]) simp
next
  case (Cons line lines)
  from Cons.prems obtain p1 e1 e2 where
    l: "processLine parse line partial = Continue p1 e1"
    and r: "processLines parse lines p1 = Continue p' e2" and evs: "evs = e1 @ e2"
    by (auto split: LineResult.splits)
  from processLine_Continue [OF l] obtain d1 where
    d1: "e1 = map OnChunk d1" "p1 = partial @ concat (map (deltaOf parse) d1)"
    by blast
  from Cons.IH [OF r] obtain d2 where
    d2: "e2 = map OnChunk d2" "p' = p1 @ concat (map (deltaOf parse) d2)"
    by blast
  show ?case
    using d1 d2 evs by (intro exI [of _ "d1 @ d2"]) simp
qed

lemma processLines_Return:
  "processLines parse lines partial = Return evs \<Longrightarrow>
   \<exists>ds t. evs = map OnChunk ds @ [t]
     \<and> (t = OnDone \<or> (\<exists>msg. t = OnError msg (partial @ concat (map (deltaOf parse) ds))))"
proof (induction lines arbitrary: partial evs)
  case Nil
  then show ?case by simp
next
  case (Cons line lines)
  show ?case
  proof (cases "processLine parse line partial")
    case (Return e1)
    with Cons.prems have "evs = e1" by simp
    with processLine_Return [OF Return] show ?thesis
      by (intro exI [of _ "[]"]) auto
  next
    case (Continue p1 e1)
    with Cons.prems obtain e2 where
      r: "processLines parse lines p1 = Return e2" and evs: "evs = e1 @ e2"
      by (auto split: LineResult.splits)
    from processLine_Continue [OF Continue] obtain d1 where
      d1: "e1 = map OnChunk d1" "p1 = partial @ concat (map (deltaOf parse) d1)"
      by blast
    from Cons.IH [OF r] obtain d2 t where
      d2: "e2 = map OnChunk d2 @ [t]"
      "t = OnDone \<or> (\<exists>msg. t = OnError msg (p1 @ concat (map (deltaOf parse) d2)))"
      by blast
    show ?thesis
      using d1 d2 evs by (intro exI [of _ "d1 @ d2"] exI [of _ t]) auto
  qed
qed

lemma readLoop_shape:
  "\<exists>ds t. readLoop parse reads buffer partial = map OnChunk ds @ [t]
     \<and> (t = OnDone \<or> (\<exists>msg. t = OnError msg (partial @ concat (map (deltaOf parse) ds))))"
proof (induction reads arbitrary: buffer partial)
  case Nil
  show ?case by (intro exI [of _ "[]"]) simp
next
  case (Cons r reads)
  show ?case
  proof (cases r)
    case (Chunk v)
    let ?lines = "splitNL (buffer @ v)"
    show ?thesis
    proof (cases "processLines parse (butlast ?lines) partial")
      case (Return evs)
      from processLines_Return [OF Return] Chunk Return show ?thesis
        by (simp add: Let_def)
    next
      case (Continue p1 e1)
      from processLines_Continue [OF Continue] obtain d1 where
        d1: "e1 = map OnChunk d1" "p1 = partial @ concat (map (deltaOf parse) d1)"
        by blast
      from Cons.IH [of "last ?lines" p1] obtain d2 t where
        d2: "readLoop parse reads (last ?lines) p1 = map OnChunk d2 @ [t]"
        "t = OnDone \<or> (\<exists>msg. t = OnError msg (p1 @ concat (map (deltaOf parse) d2)))"
        by blast
      have "readLoop parse (r # reads) buffer partial = map OnChunk (d1 @ d2) @ [t]"
        using Chunk Continue d1 d2(1) by (simp add: Let_def)
      moreover have "t = OnDone \<or> (\<exists>msg. t = OnError msg (partial @ concat (map (deltaOf parse) (d1 @ d2))))"
        using d1 d2(2) by auto
      ultimately show ?thesis by blast
    qed
  next
    case Done
    then show ?thesis by (intro exI [of _ "[]"]) simp
  next
    case ReadFailed
    then show ?thesis by (intro exI [of _ "[]"]) simp
  next
    case Silence
    then show ?thesis by (intro exI [of _ "[]"]) simp
  qed
qed

lemma streamRequest_shape:
  "\<exists>ds t. streamRequest parse u conn reads = Fetch u # map OnChunk ds @ [t]
     \<and> (t = OnDone \<or> (\<exists>msg. t = OnError msg (concat (map (deltaOf parse) ds))))"
proof (cases conn)
  case Connected
  with readLoop_shape [of parse reads "[]" "[]"] show ?thesis
    by (auto simp: streamRequest_def)
next
  case (BadStatus st)
  then show ?thesis by (intro exI [of _ "[]"]) (simp add: streamRequest_def)
next
  case NoBody
  then show ?thesis by (intro exI [of _ "[]"]) (simp add: streamRequest_def)
next
  case FetchFailed
  then show ?thesis by (intro exI [of _ "[]"]) (simp add: streamRequest_def)
qed

lemma forwarded_chunks [simp]: "forwarded (Fetch u # map OnChunk ds) = ds"
  by (induction ds) auto

lemma forwarded_map [simp]: "forwarded (map OnChunk ds) = ds"
  by (induction ds) auto

lemma error_is_last:
  assumes "xs @ [t] = pre @ OnError msg p # post" and "\<forall>x \<in> set xs. \<forall>m q. x \<noteq> OnError m q"
  shows "post = [] \<and> pre = xs \<and> t = OnError msg p"
  using assms
proof (induction xs arbitrary: pre)
  case Nil
  then show ?case by (cases pre) auto
next
  case (Cons x xs)
  then show ?case by (cases pre) auto
qed


lemma respond_requests:
  "filter isProviderRequest (concat (map respond (map OnChunk ds @ [t])))
   = (case t of Fetch u \<Rightarrow> [ProviderRequest u] | _ \<Rightarrow> [])"
  by (induction ds) (auto simp: respond_def split: StreamEvent.splits)

lemma splitNL_nonempty [simp]: "splitNL s \<noteq> []"
  by (induction s) (auto split: list.splits)

lemma splitNL_append:
  "splitNL (xs @ ys) = butlast (splitNL xs) @ splitNL (last (splitNL xs) @ ys)"
proof (induction xs)
  case Nil
  show ?case by simp
next
  case (Cons c cs)
  show ?case
  proof (cases "c = CHR 0x0A")
    case True
    then show ?thesis using Cons.IH by simp
  next
    case False
    obtain l ls where s: "splitNL cs = l # ls" by (cases "splitNL cs") auto
    show ?thesis
    proof (cases "ls = []")
      case True
      obtain l' ls' where s': "splitNL (l @ ys) = l' # ls'" by (cases "splitNL (l @ ys)") auto
      from Cons.IH s True have "splitNL (cs @ ys) = splitNL (l @ ys)" by simp
      with False s True s' show ?thesis by simp
    next
      case ne: False
      from Cons.IH s ne have "splitNL (cs @ ys) = l # butlast ls @ splitNL (last ls @ ys)"
        by simp
      with False s ne show ?thesis by simp
    qed
  qed
qed

lemma splitNL_last_no_newline: "CHR 0x0A \<notin> set (last (splitNL s))"
proof (induction s)
  case Nil
  show ?case by simp
next
  case (Cons c cs)
  obtain l ls where s: "splitNL cs = l # ls" by (cases "splitNL cs") auto
  with Cons show ?case by (cases "ls = []") auto
qed

lemma splitNL_no_newline: "CHR 0x0A \<notin> set s \<Longrightarrow> splitNL s = [s]"
  by (induction s) auto

lemma processLines_append:
  "processLines parse (xs @ ys) p =
     (case processLines parse xs p of
        Return e \<Rightarrow> Return e
      | Continue p' e \<Rightarrow>
          (case processLines parse ys p' of
             Return e' \<Rightarrow> Return (e @ e')
           | Continue p'' e' \<Rightarrow> Continue p'' (e @ e')))"
proof (induction xs arbitrary: p)
  case Nil
  show ?case by (simp split: LineResult.splits)
next
  case (Cons x xs)
  show ?case by (simp add: Cons.IH split: LineResult.splits)
qed

lemma readLoop_chunks:
  assumes "CHR 0x0A \<notin> set buffer"
  shows "readLoop parse (map Chunk vs @ rest) buffer partial =
     (case processLines parse (butlast (splitNL (buffer @ concat vs))) partial of
        Return evs \<Rightarrow> evs
      | Continue p evs \<Rightarrow> evs @ readLoop parse rest (last (splitNL (buffer @ concat vs))) p)"
  using assms
proof (induction vs arbitrary: buffer partial)
  case Nil
  then show ?case by (simp add: splitNL_no_newline)
next
  case (Cons v vs)
  let ?lines = "splitNL (buffer @ v)"
  have nl: "CHR 0x0A \<notin> set (last ?lines)" by (rule splitNL_last_no_newline)
  have sp: "splitNL (buffer @ concat (v # vs))
        = butlast ?lines @ splitNL (last ?lines @ concat vs)"
    using splitNL_append [of "buffer @ v" "concat vs"] by simp
  have bl: "butlast (splitNL (buffer @ concat (v # vs)))
        = butlast ?lines @ butlast (splitNL (last ?lines @ concat vs))"
    unfolding sp by (simp add: butlast_append)
  have la: "last (splitNL (buffer @ concat (v # vs))) = last (splitNL (last ?lines @ concat vs))"
    unfolding sp by simp
  show ?case
    unfolding bl la processLines_append
    by (simp add: Let_def Cons.IH [OF nl] split: LineResult.splits)
qed


lemma streamRequest_chunks:
  "streamRequest parse u Connected (map Chunk vs @ rest) =
     Fetch u #
     (case processLines parse (butlast (splitNL (concat vs))) [] of
        Return evs \<Rightarrow> evs
      | Continue p evs \<Rightarrow> evs @ readLoop parse rest (last (splitNL (concat vs))) p)"
  using readLoop_chunks [of "[]" parse vs rest "[]"]
  by (simp add: streamRequest_def split: LineResult.splits)

lemma processLine_malformed:
  assumes "take 6 line = ''data: ''" and "trim (drop 6 line) \<noteq> ''[DONE]''"
    and "parse (trim (drop 6 line)) = Malformed"
  shows "processLine parse line p = Return [OnError ''Malformed chunk'' p]"
  using assms by (simp add: processLine_def Let_def)

text \<open>
  C7: when a stream fails after chunks have been forwarded (or before any), the relay
  reports the failure and the failure is terminal. Let the complete lines received so far
  have been relayed without ending the stream, with the forwarded payloads \<open>evs\<close> and the
  partial content \<open>partialContent\<close>, which is then exactly the concatenation of the
  content deltas of the forwarded payloads. If the upstream now goes silent for longer
  than the chunk timeout (or sends nothing more at all), the relay's trace is the one
  upstream request, the forwarded payloads and the error "Stream stalled - chunk timeout"
  carrying that partial content; if the read fails, it ends with the error
  "Stream failed" instead; if the next complete line is a data line whose payload does not
  parse, it ends with the error "Malformed chunk", whatever the upstream sends afterwards
  and however the text is cut into chunks. Whenever the relay reports an error, nothing
  follows the error in its trace, the partial content it reports is the concatenation of
  the content deltas forwarded before it, the relay has made one upstream request and no
  other, and so has the handler: there is no retry and no failover. The handler ends the
  response with the error event carrying that partial content.
\<close>

theorem stream_failure_is_terminal:
  assumes "processLines parse good [] = Continue partialContent evs"
  shows "evs = map OnChunk (forwarded evs)
   \<and> partialContent = concat (map (deltaOf parse) (forwarded evs))
   \<and> (butlast (splitNL (concat vs)) = good \<longrightarrow>
        streamRequest parse u Connected (map Chunk vs @ Silence # rest)
          = Fetch u # evs @ [OnError ''Stream stalled - chunk timeout'' partialContent]
        \<and> streamRequest parse u Connected (map Chunk vs)
          = Fetch u # evs @ [OnError ''Stream stalled - chunk timeout'' partialContent]
        \<and> streamRequest parse u Connected (map Chunk vs @ ReadFailed # rest)
          = Fetch u # evs @ [OnError ''Stream failed'' partialContent])
   \<and> (butlast (splitNL (concat ws)) = good @ line # after
        \<and> take 6 line = ''data: '' \<and> trim (drop 6 line) \<noteq> ''[DONE]''
        \<and> parse (trim (drop 6 line)) = Malformed \<longrightarrow>
        streamRequest parse u Connected (map Chunk ws @ rest)
          = Fetch u # evs @ [OnError ''Malformed chunk'' partialContent])
   \<and> (streamRequest parse u conn reads = pre @ OnError msg p # post \<longrightarrow>
        post = []
        \<and> p = concat (map (deltaOf parse) (forwarded pre))
        \<and> filter isFetch (streamRequest parse u conn reads) = [Fetch u]
        \<and> filter isProviderRequest (streamingHandler parse u conn reads) = [ProviderRequest u]
        \<and> streamingHandler parse u conn reads
            = FlushHeaders # concat (map respond pre) @ [WriteErrorEvent msg p, EndResponse])"
proof -
  from processLines_Continue [OF assms] obtain ds where
    ds: "evs = map OnChunk ds" "partialContent = concat (map (deltaOf parse) ds)"
    by auto
  have c1: "evs = map OnChunk (forwarded evs)"
    and c2: "partialContent = concat (map (deltaOf parse) (forwarded evs))"
    using ds by simp_all
  have stall: "streamRequest parse u Connected (map Chunk vs @ Silence # rest)
          = Fetch u # evs @ [OnError ''Stream stalled - chunk timeout'' partialContent]"
    and exhausted: "streamRequest parse u Connected (map Chunk vs)
          = Fetch u # evs @ [OnError ''Stream stalled - chunk timeout'' partialContent]"
    and failed: "streamRequest parse u Connected (map Chunk vs @ ReadFailed # rest)
          = Fetch u # evs @ [OnError ''Stream failed'' partialContent]"
    if g: "butlast (splitNL (concat vs)) = good"
  proof -
    show "streamRequest parse u Connected (map Chunk vs @ Silence # rest)
          = Fetch u # evs @ [OnError ''Stream stalled - chunk timeout'' partialContent]"
      by (simp add: streamRequest_chunks g assms)
    show "streamRequest parse u Connected (map Chunk vs)
          = Fetch u # evs @ [OnError ''Stream stalled - chunk timeout'' partialContent]"
      using streamRequest_chunks [of parse u vs "[]"] by (simp add: g assms)
    show "streamRequest parse u Connected (map Chunk vs @ ReadFailed # rest)
          = Fetch u # evs @ [OnError ''Stream failed'' partialContent]"
      by (simp add: streamRequest_chunks g assms)
  qed
  have malformed: "streamRequest parse u Connected (map Chunk ws @ rest)
          = Fetch u # evs @ [OnError ''Malformed chunk'' partialContent]"
    if g: "butlast (splitNL (concat ws)) = good @ line # after"
      and l: "take 6 line = ''data: ''" "trim (drop 6 line) \<noteq> ''[DONE]''"
        "parse (trim (drop 6 line)) = Malformed"
  proof -
    have "processLines parse (good @ line # after) []
            = Return (evs @ [OnError ''Malformed chunk'' partialContent])"
      using processLine_malformed [where line = line and parse = parse, OF l]
      by (simp add: processLines_append assms)
    then show ?thesis by (simp add: streamRequest_chunks g)
  qed
  have terminal: "post = []
        \<and> p = concat (map (deltaOf parse) (forwarded pre))
        \<and> filter isFetch (streamRequest parse u conn reads) = [Fetch u]
        \<and> filter isProviderRequest (streamingHandler parse u conn reads) = [ProviderRequest u]
        \<and> streamingHandler parse u conn reads
            = FlushHeaders # concat (map respond pre) @ [WriteErrorEvent msg p, EndResponse]"
    if tr: "streamRequest parse u conn reads = pre @ OnError msg p # post"
  proof -
    from streamRequest_shape [of parse u conn reads] obtain es t where
      sr: "streamRequest parse u conn reads = Fetch u # map OnChunk es @ [t]"
      and t: "t = OnDone \<or> (\<exists>m. t = OnError m (concat (map (deltaOf parse) es)))"
      by blast
    have "(Fetch u # map OnChunk es) @ [t] = pre @ OnError msg p # post"
      using tr sr by simp
    moreover have "\<forall>x \<in> set (Fetch u # map OnChunk es). \<forall>m q. x \<noteq> OnError m q"
      by auto
    ultimately have e: "post = []" "pre = Fetch u # map OnChunk es" "t = OnError msg p"
      using error_is_last by blast+
    have pc: "p = concat (map (deltaOf parse) (forwarded pre))"
      using t e by auto
    have f: "filter isFetch (streamRequest parse u conn reads) = [Fetch u]"
      unfolding sr e(3) by (induction es) auto
    have h: "filter isProviderRequest (streamingHandler parse u conn reads) = [ProviderRequest u]"
      unfolding streamingHandler_def sr e(3)
      using respond_requests [of es "OnError msg p"] by (simp add: respond_def)
    have w: "streamingHandler parse u conn reads
          = FlushHeaders # concat (map respond pre) @ [WriteErrorEvent msg p, EndResponse]"
      unfolding streamingHandler_def tr e(1) by (simp add: respond_def)
    from e(1) pc f h w show ?thesis by blast
  qed
  from c1 c2 stall exhausted failed malformed terminal show ?thesis by blast
qed


theorem stream_failure_is_terminal_witness:
  "processLines plainParse [''data: Hello'', ''data: world''] []
     = Continue ''Helloworld'' [OnChunk ''Hello'', OnChunk ''world'']
   \<and> butlast (splitNL (concat [''data: Hello'' @ [CHR 0x0A], ''data: world'' @ [CHR 0x0A]]))
     = [''data: Hello'', ''data: world'']
   \<and> butlast (splitNL (concat [''data: Hello'' @ [CHR 0x0A], ''data: wor'',
                                ''ld'' @ [CHR 0x0A] @ ''data: {broken'' @ [CHR 0x0A]]))
     = [''data: Hello'', ''data: world''] @ ''data: {broken'' # []
   \<and> take 6 ''data: {broken'' = ''data: ''
   \<and> trim (drop 6 ''data: {broken'') \<noteq> ''[DONE]''
   \<and> plainParse (trim (drop 6 ''data: {broken'')) = Malformed
   \<and> streamRequest plainParse ''http://openai'' Connected
       [Chunk (''data: Hello'' @ [CHR 0x0A]), Chunk (''data: world'' @ [CHR 0x0A]), Silence]
     = [Fetch ''http://openai'', OnChunk ''Hello'', OnChunk ''world'']
       @ OnError ''Stream stalled - chunk timeout'' ''Helloworld'' # []
   \<and> streamRequest plainParse ''http://openai'' Connected
       [Chunk (''data: Hello'' @ [CHR 0x0A]), Chunk (''data: world'' @ [CHR 0x0A]), ReadFailed]
     = [Fetch ''http://openai'', OnChunk ''Hello'', OnChunk ''world'',
        OnError ''Stream failed'' ''Helloworld'']
   \<and> streamRequest plainParse ''http://openai'' Connected
       [Chunk (''data: Hello'' @ [CHR 0x0A]), Chunk (''data: world'' @ [CHR 0x0A])]
     = [Fetch ''http://openai'', OnChunk ''Hello'', OnChunk ''world'',
        OnError ''Stream stalled - chunk timeout'' ''Helloworld'']
   \<and> streamRequest plainParse ''http://openai'' Connected
       [Chunk (''data: Hello'' @ [CHR 0x0A]), Chunk ''data: wor'',
        Chunk (''ld'' @ [CHR 0x0A] @ ''data: {broken'' @ [CHR 0x0A])]
     = [Fetch ''http://openai'', OnChunk ''Hello'', OnChunk ''world'',
        OnError ''Malformed chunk'' ''Helloworld'']
   \<and> ''Helloworld'' = concat (map (deltaOf plainParse) [''Hello'', ''world''])
   \<and> filter isProviderRequest (streamingHandler plainParse ''http://openai'' Connected
       [Chunk (''data: Hello'' @ [CHR 0x0A]), Chunk (''data: world'' @ [CHR 0x0A]), Silence])
     = [ProviderRequest ''http://openai'']
   \<and> streamingHandler plainParse ''http://openai'' Connected
       [Chunk (''data: Hello'' @ [CHR 0x0A]), Chunk (''data: world'' @ [CHR 0x0A]), Silence]
     = [FlushHeaders, ProviderRequest ''http://openai'',
        Write (''data: Hello'' @ [CHR 0x0A, CHR 0x0A]), Write (''data: world'' @ [CHR 0x0A, CHR 0x0A]),
        WriteErrorEvent ''Stream stalled - chunk timeout'' ''Helloworld'', EndResponse]"
proof -
  have h0: "processLines plainParse [''data: Hello'', ''data: world''] []
     = Continue ''Helloworld'' [OnChunk ''Hello'', OnChunk ''world'']"
    by code_simp
  have h1: "butlast (splitNL (concat [''data: Hello'' @ [CHR 0x0A], ''data: world'' @ [CHR 0x0A]]))
     = [''data: Hello'', ''data: world'']"
    by code_simp
  have h2: "butlast (splitNL (concat [''data: Hello'' @ [CHR 0x0A], ''data: wor'',
                                ''ld'' @ [CHR 0x0A] @ ''data: {broken'' @ [CHR 0x0A]]))
     = [''data: Hello'', ''data: world''] @ ''data: {broken'' # []"
    by code_simp
  have h3: "take 6 ''data: {broken'' = ''data: ''"
    "trim (drop 6 ''data: {broken'') \<noteq> ''[DONE]''"
    "plainParse (trim (drop 6 ''data: {broken'')) = Malformed"
    by code_simp+
  have h4: "streamRequest plainParse ''http://openai'' Connected
       [Chunk (''data: Hello'' @ [CHR 0x0A]), Chunk (''data: world'' @ [CHR 0x0A]), Silence]
     = [Fetch ''http://openai'', OnChunk ''Hello'', OnChunk ''world'']
       @ OnError ''Stream stalled - chunk timeout'' ''Helloworld'' # []"
    by code_simp
  note t = stream_failure_is_terminal
    [OF h0,
     where vs = "[''data: Hello'' @ [CHR 0x0A], ''data: world'' @ [CHR 0x0A]]"
       and ws = "[''data: Hello'' @ [CHR 0x0A], ''data: wor'',
                  ''ld'' @ [CHR 0x0A] @ ''data: {broken'' @ [CHR 0x0A]]"
       and line = "''data: {broken''" and after = "[]" and rest = "[]"
       and u = "''http://openai''" and conn = Connected
       and reads = "[Chunk (''data: Hello'' @ [CHR 0x0A]), Chunk (''data: world'' @ [CHR 0x0A]),
                     Silence]"
       and pre = "[Fetch ''http://openai'', OnChunk ''Hello'', OnChunk ''world'']"
       and msg = "''Stream stalled - chunk timeout''" and p = "''Helloworld''" and post = "[]"]
  from t h1 have a: "streamRequest plainParse ''http://openai'' Connected
       (map Chunk [''data: Hello'' @ [CHR 0x0A], ''data: world'' @ [CHR 0x0A]] @ [ReadFailed])
     = Fetch ''http://openai'' # [OnChunk ''Hello'', OnChunk ''world'']
        @ [OnError ''Stream failed'' ''Helloworld'']"
    and b: "streamRequest plainParse ''http://openai'' Connected
       (map Chunk [''data: Hello'' @ [CHR 0x0A], ''data: world'' @ [CHR 0x0A]])
     = Fetch ''http://openai'' # [OnChunk ''Hello'', OnChunk ''world'']
        @ [OnError ''Stream stalled - chunk timeout'' ''Helloworld'']"
    by blast+
  from t h2 h3 have c: "streamRequest plainParse ''http://openai'' Connected
       (map Chunk [''data: Hello'' @ [CHR 0x0A], ''data: wor'',
                   ''ld'' @ [CHR 0x0A] @ ''data: {broken'' @ [CHR 0x0A]] @ [])
     = Fetch ''http://openai'' # [OnChunk ''Hello'', OnChunk ''world'']
        @ [OnError ''Malformed chunk'' ''Helloworld'']"
    by blast
  from t h4 have d: "''Helloworld''
       = concat (map (deltaOf plainParse)
                   (forwarded [Fetch ''http://openai'', OnChunk ''Hello'', OnChunk ''world'']))"
    and e: "filter isProviderRequest (streamingHandler plainParse ''http://openai'' Connected
       [Chunk (''data: Hello'' @ [CHR 0x0A]), Chunk (''data: world'' @ [CHR 0x0A]), Silence])
     = [ProviderRequest ''http://openai'']"
    and f: "streamingHandler plainParse ''http://openai'' Connected
       [Chunk (''data: Hello'' @ [CHR 0x0A]), Chunk (''data: world'' @ [CHR 0x0A]), Silence]
     = FlushHeaders # concat (map respond [Fetch ''http://openai'', OnChunk ''Hello'', OnChunk ''world''])
        @ [WriteErrorEvent ''Stream stalled - chunk timeout'' ''Helloworld'', EndResponse]"
    by blast+
  have a': "streamRequest plainParse ''http://openai'' Connected
       [Chunk (''data: Hello'' @ [CHR 0x0A]), Chunk (''data: world'' @ [CHR 0x0A]), ReadFailed]
     = [Fetch ''http://openai'', OnChunk ''Hello'', OnChunk ''world'',
        OnError ''Stream failed'' ''Helloworld'']"
    using a by simp
  have b': "streamRequest plainParse ''http://openai'' Connected
       [Chunk (''data: Hello'' @ [CHR 0x0A]), Chunk (''data: world'' @ [CHR 0x0A])]
     = [Fetch ''http://openai'', OnChunk ''Hello'', OnChunk ''world'',
        OnError ''Stream stalled - chunk timeout'' ''Helloworld'']"
    using b by simp
  have c': "streamRequest plainParse ''http://openai'' Connected
       [Chunk (''data: Hello'' @ [CHR 0x0A]), Chunk ''data: wor'',
        Chunk (''ld'' @ [CHR 0x0A] @ ''data: {broken'' @ [CHR 0x0A])]
     = [Fetch ''http://openai'', OnChunk ''Hello'', OnChunk ''world'',
        OnError ''Malformed chunk'' ''Helloworld'']"
    using c by simp
  have d': "''Helloworld'' = concat (map (deltaOf plainParse) [''Hello'', ''world''])"
    using d by simp
  have f': "streamingHandler plainParse ''http://openai'' Connected
       [Chunk (''data: Hello'' @ [CHR 0x0A]), Chunk (''data: world'' @ [CHR 0x0A]), Silence]
     = [FlushHeaders, ProviderRequest ''http://openai'',
        Write (''data: Hello'' @ [CHR 0x0A, CHR 0x0A]), Write (''data: world'' @ [CHR 0x0A, CHR 0x0A]),
        WriteErrorEvent ''Stream stalled - chunk timeout'' ''Helloworld'', EndResponse]"
    using f by (simp add: respond_def)
  from h0 h1 h2 h3 h4 a' b' c' d' e f' show ?thesis by blast
qed

text \<open>
  C10: for a well-formed chunk (a data line that is not the sentinel and whose payload
  parses) with a missing or empty content delta, the relay forwards nothing and leaves
  the partial content unchanged; with a non-empty content delta it forwards the payload
  and appends the delta to the partial content.
\<close>

theorem empty_delta_is_not_forwarded:
  assumes "take 6 line = ''data: ''" and "trim (drop 6 line) \<noteq> ''[DONE]''"
    and "parse (trim (drop 6 line)) = Delta content"
  shows "(content = None \<or> content = Some [] \<longrightarrow>
            processLine parse line partialContent = Continue partialContent [])
   \<and> (\<forall>c. content = Some c \<and> c \<noteq> [] \<longrightarrow>
            processLine parse line partialContent
              = Continue (partialContent @ c) [OnChunk (trim (drop 6 line))])"
  using assms by (auto simp: processLine_def Let_def)

theorem empty_delta_is_not_forwarded_witness:
  "take 6 ''data: {}'' = ''data: '' \<and> trim (drop 6 ''data: {}'') \<noteq> ''[DONE]''
   \<and> plainParse (trim (drop 6 ''data: {}'')) = Delta None
   \<and> processLine plainParse ''data: {}'' ''Hello'' = Continue ''Hello'' []
   \<and> take 6 ''data: world'' = ''data: '' \<and> trim (drop 6 ''data: world'') \<noteq> ''[DONE]''
   \<and> plainParse (trim (drop 6 ''data: world'')) = Delta (Some ''world'')
   \<and> processLine plainParse ''data: world'' ''Hello'' = Continue ''Helloworld'' [OnChunk ''world'']"
proof -
  have a: "take 6 ''data: {}'' = ''data: ''" "trim (drop 6 ''data: {}'') \<noteq> ''[DONE]''"
    "plainParse (trim (drop 6 ''data: {}'')) = Delta None"
    by code_simp+
  have b: "take 6 ''data: world'' = ''data: ''" "trim (drop 6 ''data: world'') \<noteq> ''[DONE]''"
    "plainParse (trim (drop 6 ''data: world'')) = Delta (Some ''world'')"
    "trim (drop 6 ''data: world'') = ''world''"
    by code_simp+
  from empty_delta_is_not_forwarded
         [where line = "''data: {}''" and parse = plainParse and content = None
            and partialContent = "''Hello''", OF a]
       empty_delta_is_not_forwarded
         [where line = "''data: world''" and parse = plainParse and content = "Some ''world''"
            and partialContent = "''Hello''", OF b(1,2,3)]
  show ?thesis using a b by simp
qed

section \<open>A provider whose circuit is open\<close>

text \<open>
  C9 (as stated): a candidate provider whose circuit is open is skipped at
  provider-selection time, the skip is not counted as an attempt in the request's
  attempt history, and the orchestrator moves on to the next eligible provider rather
  than aborting the request.
  In the Go orchestrator the provider is selected all the same: SelectProvider does
  not look at circuit breakers. With the breaker of openai open and anthropic eligible
  for the model, ExecuteRequest selects openai, records attempt number 1 against it as
  failed, and returns the circuit-breaker error, which isRetryable does not accept: the
  request ends there and anthropic is not tried (the scripted reply is still unused).
\<close>

theorem open_circuit_aborts_counterexample:
  "fst (ExecuteRequest background goRetryConfig
          (NewProviderRouter [openaiConfig, anthropicConfig])
          noJitter timerWins gptRequest [okReply] clientOpenaiOpen)
     = Err (CircuitBreakerOpenError ''openai'')
   \<and> fst (snd (ExecuteRequest background goRetryConfig
          (NewProviderRouter [openaiConfig, anthropicConfig])
          noJitter timerWins gptRequest [okReply] clientOpenaiOpen))
     = [\<lparr>AttemptNumber = 1, attempt_Provider = ''openai'', Status = ''failed'',
         ErrorType = ''*errors.CircuitBreakerOpenError''\<rparr>]
   \<and> fst (snd (snd (ExecuteRequest background goRetryConfig
          (NewProviderRouter [openaiConfig, anthropicConfig])
          noJitter timerWins gptRequest [okReply] clientOpenaiOpen)))
     = [okReply]
   \<and> modelToProvider (NewProviderRouter [openaiConfig, anthropicConfig]) ''gpt-4''
     = [''openai'', ''anthropic'']
   \<and> isRetryable (CircuitBreakerOpenError ''openai'') = False"
  by code_simp


lemma SendRequest_open:
  assumes "circuitBreakers c p = Some cb" and "go_state cb = StateOpen"
    and "go_clock c - openedAt cb \<le> timeout cb"
  shows "SendRequest ctx p script c = (Err (CircuitBreakerOpenError p), script, c)"
proof -
  have "(circuitBreakers c)(p \<mapsto> cb) = circuitBreakers c"
    using assms(1) by (rule map_upd_triv)
  then show ?thesis
    using assms by (simp add: SendRequest_def getCircuitBreaker_def IsOpen_def)
qed

text \<open>
  C9 (amended): when the selected provider's breaker is open and its timeout has not
  elapsed, no request is sent to that provider: SendRequest consumes no reply, leaves
  the client and its breakers unchanged and returns CircuitBreakerOpenError. The
  check is made inside the attempt, not at provider selection: executeAttempt returns
  an Attempt record with status "failed" and that error's type, and ExecuteRequest
  appends this record to the attempt history.
\<close>

theorem open_circuit_fails_attempt_without_request:
  assumes "circuitBreakers c p = Some cb" and "go_state cb = StateOpen"
    and "go_clock c - openedAt cb \<le> timeout cb"
  shows "SendRequest ctx p script c = (Err (CircuitBreakerOpenError p), script, c)
   \<and> (p \<in> adapters \<and> (\<exists>pc. GetProviderConfig r p = Inr pc) \<longrightarrow>
        executeAttempt ctx r n p script c
          = (\<lparr>AttemptNumber = n, attempt_Provider = p, Status = ''failed'',
              ErrorType = ''*errors.CircuitBreakerOpenError''\<rparr>,
             Err (CircuitBreakerOpenError p), script, c))
   \<and> (n \<le> MaxRetries rc \<and> SelectProvider r req n prev = Inr p
        \<and> p \<in> adapters \<and> (\<exists>pc. GetProviderConfig r p = Inr pc) \<longrightarrow>
        take (length attempts + 1)
          (fst (snd (ExecuteLoop ctx rc r rand timerFirst req n prev lastErr attempts script c)))
          = attempts @ [\<lparr>AttemptNumber = n, attempt_Provider = p, Status = ''failed'',
                          ErrorType = ''*errors.CircuitBreakerOpenError''\<rparr>])"
proof -
  note sr = SendRequest_open [OF assms, of ctx script]
  have ea: "executeAttempt ctx r n p script c
          = (\<lparr>AttemptNumber = n, attempt_Provider = p, Status = ''failed'',
              ErrorType = ''*errors.CircuitBreakerOpenError''\<rparr>,
             Err (CircuitBreakerOpenError p), script, c)"
    if "p \<in> adapters" "\<exists>pc. GetProviderConfig r p = Inr pc"
    using that sr by (auto simp: executeAttempt_def Let_def typeName_def)
  have "take (length attempts + 1)
          (fst (snd (ExecuteLoop ctx rc r rand timerFirst req n prev lastErr attempts script c)))
          = attempts @ [\<lparr>AttemptNumber = n, attempt_Provider = p, Status = ''failed'',
                          ErrorType = ''*errors.CircuitBreakerOpenError''\<rparr>]"
    if "n \<le> MaxRetries rc" "SelectProvider r req n prev = Inr p"
       "p \<in> adapters" "\<exists>pc. GetProviderConfig r p = Inr pc"
    using that ea
    by (subst ExecuteLoop.simps) (simp add: Let_def isRetryable_def)
  with sr ea show ?thesis by blast
qed

theorem open_circuit_fails_attempt_without_request_witness:
  "circuitBreakers clientOpenaiOpen ''openai'' = Some openaiBreakerOpen
   \<and> go_state openaiBreakerOpen = StateOpen
   \<and> go_clock clientOpenaiOpen - openedAt openaiBreakerOpen \<le> timeout openaiBreakerOpen
   \<and> ''openai'' \<in> adapters
   \<and> GetProviderConfig (NewProviderRouter [openaiConfig, anthropicConfig]) ''openai''
       = Inr openaiConfig
   \<and> 1 \<le> MaxRetries goRetryConfig
   \<and> SelectProvider (NewProviderRouter [openaiConfig, anthropicConfig]) gptRequest 1 []
       = Inr ''openai''
   \<and> SendRequest background ''openai'' [okReply] clientOpenaiOpen
       = (Err (CircuitBreakerOpenError ''openai''), [okReply], clientOpenaiOpen)
   \<and> take 1 (fst (snd (ExecuteLoop background goRetryConfig
                (NewProviderRouter [openaiConfig, anthropicConfig]) noJitter timerWins
                gptRequest 1 [] None [] [okReply] clientOpenaiOpen)))
       = [\<lparr>AttemptNumber = 1, attempt_Provider = ''openai'', Status = ''failed'',
           ErrorType = ''*errors.CircuitBreakerOpenError''\<rparr>]"
proof -
  have h: "circuitBreakers clientOpenaiOpen ''openai'' = Some openaiBreakerOpen"
    "go_state openaiBreakerOpen = StateOpen"
    "go_clock clientOpenaiOpen - openedAt openaiBreakerOpen \<le> timeout openaiBreakerOpen"
    by (simp_all add: clientOpenaiOpen_def openaiBreakerOpen_def NewCircuitBreaker_def)
  have g: "''openai'' \<in> adapters"
    "GetProviderConfig (NewProviderRouter [openaiConfig, anthropicConfig]) ''openai''
       = Inr openaiConfig"
    "1 \<le> MaxRetries goRetryConfig"
    "SelectProvider (NewProviderRouter [openaiConfig, anthropicConfig]) gptRequest 1 []
       = Inr ''openai''"
    by (simp_all add: adapters_def GetProviderConfig_def NewProviderRouter_def openaiConfig_def
          anthropicConfig_def goRetryConfig_def SelectProvider_def gptRequest_def)
  from open_circuit_fails_attempt_without_request
         [OF h, where ctx = background and script = "[okReply]"
            and r = "NewProviderRouter [openaiConfig, anthropicConfig]" and n = 1
            and rc = goRetryConfig and req = gptRequest and prev = "[]" and attempts = "[]"
            and rand = noJitter and timerFirst = timerWins and lastErr = None]
  show ?thesis using h g by simp
qed

end
